theory Spec2Isabelle
  imports Main
begin

section \<open>The organization-flow checker (scripts/tests/test-organization-flows.py)\<close>

text \<open>
  The script drives a headless browser through a fixed sequence of page visits, records
  one pass/fail entry per \<^verbatim>\<open>log_test\<close> call in a dictionary
  \<^verbatim>\<open>results\<close>, prints a transcript and leaves through \<^verbatim>\<open>sys.exit\<close>.

  The browser, the application under test and the file system are outside the script.
  They are modelled as a world of an arbitrary type \<open>'w\<close> together with a record of
  operations on it, one per Playwright (or \<^verbatim>\<open>os.path\<close>) call the script makes.
  Each operation returns the browser events delivered while the call was waiting, and
  either the raised exception or the call's value. Everything the script itself does
  (the results dictionary, what it prints, which calls it makes and in which order) is
  explicit state.
\<close>

subsection \<open>Strings\<close>

text \<open>
  Strings are byte lists: a character outside ASCII is its UTF-8 bytes. The substring
  tests of the script look for ASCII words only, so that a test on bytes and a test on
  code points agree.
\<close>

fun starts_with :: "string \<Rightarrow> string \<Rightarrow> bool" where
  "starts_with [] s = True"
| "starts_with (c # cs) [] = False"
| "starts_with (c # cs) (d # ds) = (c = d \<and> starts_with cs ds)"

text \<open>Python's \<^verbatim>\<open>sub in s\<close> on strings.\<close>

fun is_in :: "string \<Rightarrow> string \<Rightarrow> bool" where
  "is_in sub [] = (sub = [])"
| "is_in sub (c # cs) = (starts_with sub (c # cs) \<or> is_in sub cs)"

text \<open>\<^verbatim>\<open>str.lower()\<close>, on the ASCII letters.\<close>

definition lower_char :: "char \<Rightarrow> char" where
  "lower_char c =
     (let n = (of_char c :: nat) in if 65 \<le> n \<and> n \<le> 90 then char_of (n + 32) else c)"

definition lower :: "string \<Rightarrow> string" where
  "lower s = map lower_char s"

text \<open>\<^verbatim>\<open>str(n)\<close> of a non-negative integer, and of an integer.\<close>

definition digit :: "nat \<Rightarrow> char" where
  "digit d = char_of (48 + d)"

fun show_nat :: "nat \<Rightarrow> string" where
  "show_nat n = (if n < 10 then [digit n] else show_nat (n div 10) @ [digit (n mod 10)])"

declare show_nat.simps [simp del]

definition show_int :: "int \<Rightarrow> string" where
  "show_int i = (if i < 0 then CHR ''-'' # show_nat (nat (- i)) else show_nat (nat i))"

text \<open>\<^verbatim>\<open>str(b)\<close> of a boolean, as an f-string prints it.\<close>

definition show_bool :: "bool \<Rightarrow> string" where
  "show_bool b = (if b then ''True'' else ''False'')"

text \<open>
  \<^verbatim>\<open>f"{x:.1f}"\<close> of the non-negative quotient \<open>num / den\<close> tenths: the nearest
  number with one decimal, a tie going to the even neighbour. \<open>num\<close> counts tenths,
  so \<open>format_1f (1000 * p) t\<close> prints \<open>p / t * 100\<close>. The script computes the
  quotient in floating point; for the totals it can reach (at most eleven) the quotient
  is never within rounding error of a tie, and the exact result is the printed one.
\<close>

definition format_1f :: "nat \<Rightarrow> nat \<Rightarrow> string" where
  "format_1f num den =
     (let q = num div den; r = num mod den;
          tenths = (if 2 * r < den then q else if den < 2 * r then q + 1
                    else if even q then q else q + 1)
      in show_nat (tenths div 10) @ ''.'' @ show_nat (tenths mod 10))"

text \<open>The symbols the script prints, as UTF-8.\<close>

definition check_mark :: string where
  "check_mark = [CHR 0xE2, CHR 0x9C, CHR 0x85]"

definition cross_mark :: string where
  "cross_mark = [CHR 0xE2, CHR 0x9D, CHR 0x8C]"

definition test_tube :: string where
  "test_tube = [CHR 0xF0, CHR 0x9F, CHR 0xA7, CHR 0xAA]"

definition round_pin :: string where
  "round_pin = [CHR 0xF0, CHR 0x9F, CHR 0x93, CHR 0x8D]"

definition bar_chart :: string where
  "bar_chart = [CHR 0xF0, CHR 0x9F, CHR 0x93, CHR 0x8A]"

definition chart_up :: string where
  "chart_up = [CHR 0xF0, CHR 0x9F, CHR 0x93, CHR 0x88]"

definition warning_sign :: string where
  "warning_sign = [CHR 0xE2, CHR 0x9A, CHR 0xA0, CHR 0xEF, CHR 0xB8, CHR 0x8F]"

definition party_popper :: string where
  "party_popper = [CHR 0xF0, CHR 0x9F, CHR 0x8E, CHR 0x89]"

definition newline :: string where
  "newline = [CHR 0x0A]"

definition rule60 :: string where
  "rule60 = replicate 60 CHR ''=''"

subsection \<open>The world, and the state of a run\<close>

text \<open>
  An exception is its message, \<^verbatim>\<open>str(e)\<close>: the script uses nothing else of it.
  The exceptions modelled are those of class \<^verbatim>\<open>Exception\<close>, which the calls
  into the browser raise and the handler of line 202 catches.
\<close>

type_synonym exn = string

text \<open>
  What the page emits while a call waits: a console message (its type and text) or an
  uncaught page error.
\<close>

datatype browser_event = ConsoleMsg string string | PageError string

datatype call =
    SyncPlaywright | Launch | NewContext | NewPage | On string
  | Goto string | Screenshot string | Title | Url | Count string | Content
  | WaitForTimeout nat | Get string | PathExists string | Close | Stop

text \<open>What a run does that can be seen from outside, in order.\<close>

datatype event = Print string | Traceback exn | Call call

type_synonym 'a reply = "browser_event list \<times> (exn + 'a)"

record 'w browser =
  sync_playwright_r :: "'w \<Rightarrow> unit reply \<times> 'w"
  launch_r :: "'w \<Rightarrow> unit reply \<times> 'w"
  new_context_r :: "'w \<Rightarrow> unit reply \<times> 'w"
  new_page_r :: "'w \<Rightarrow> unit reply \<times> 'w"
  on_r :: "string \<Rightarrow> 'w \<Rightarrow> unit reply \<times> 'w"
  goto_r :: "string \<Rightarrow> 'w \<Rightarrow> unit reply \<times> 'w"
  screenshot_r :: "string \<Rightarrow> 'w \<Rightarrow> unit reply \<times> 'w"
  title_r :: "'w \<Rightarrow> string reply \<times> 'w"
  url_r :: "'w \<Rightarrow> string reply \<times> 'w"
  count_r :: "string \<Rightarrow> 'w \<Rightarrow> nat reply \<times> 'w"
  content_r :: "'w \<Rightarrow> string reply \<times> 'w"
  wait_for_timeout_r :: "nat \<Rightarrow> 'w \<Rightarrow> unit reply \<times> 'w"
  get_r :: "string \<Rightarrow> 'w \<Rightarrow> nat reply \<times> 'w"
  close_r :: "'w \<Rightarrow> unit reply \<times> 'w"
  path_exists_r :: "'w \<Rightarrow> string \<Rightarrow> bool"

text \<open>The dictionary \<^verbatim>\<open>results\<close>.\<close>

record results =
  passed :: "string list"
  failed :: "string list"
  total_r :: int

record 'w run_state =
  world :: 'w
  results :: results
  trace :: "event list"
  console_on :: bool
  pageerror_on :: bool
  js_errors :: "string list"
  handle_error_on :: bool

text \<open>
  A statement of the script either raises or returns a value, and changes the state.
\<close>

type_synonym ('w, 'a) m = "'w run_state \<Rightarrow> (exn + 'a) \<times> 'w run_state"

definition ret :: "'a \<Rightarrow> ('w, 'a) m" where
  "ret x s = (Inr x, s)"

definition bnd :: "('w, 'a) m \<Rightarrow> ('a \<Rightarrow> ('w, 'b) m) \<Rightarrow> ('w, 'b) m" where
  "bnd m f s = (case m s of (Inl e, s') \<Rightarrow> (Inl e, s') | (Inr x, s') \<Rightarrow> f x s')"

definition seq :: "('w, 'a) m \<Rightarrow> ('w, 'b) m \<Rightarrow> ('w, 'b) m" where
  "seq m1 m2 = bnd m1 (\<lambda>_. m2)"

definition modify :: "('w run_state \<Rightarrow> 'w run_state) \<Rightarrow> ('w, unit) m" where
  "modify f s = (Inr (), f s)"

text \<open>Python's short-circuit \<^verbatim>\<open>or\<close> and \<^verbatim>\<open>and\<close> on booleans.\<close>

definition or_else :: "('w, bool) m \<Rightarrow> ('w, bool) m \<Rightarrow> ('w, bool) m" where
  "or_else m1 m2 = bnd m1 (\<lambda>a. if a then ret True else m2)"

definition and_also :: "('w, bool) m \<Rightarrow> ('w, bool) m \<Rightarrow> ('w, bool) m" where
  "and_also m1 m2 = bnd m1 (\<lambda>a. if a then m2 else ret False)"

definition emit :: "event \<Rightarrow> 'w run_state \<Rightarrow> 'w run_state" where
  "emit ev s = s\<lparr>trace := trace s @ [ev]\<rparr>"

definition print :: "string \<Rightarrow> ('w, unit) m" where
  "print str = modify (emit (Print str))"

text \<open>
  The handlers of lines 46, 47 and 171-174: the two lambdas print, \<^verbatim>\<open>handle_error\<close>
  appends to \<^verbatim>\<open>js_errors\<close>. A handler runs only once it is registered.
\<close>

fun dispatch :: "browser_event \<Rightarrow> 'w run_state \<Rightarrow> 'w run_state" where
  "dispatch (ConsoleMsg ty txt) s =
     (if console_on s then emit (Print (''[Browser Console] '' @ ty @ '': '' @ txt)) s else s)"
| "dispatch (PageError err) s =
     (let s1 = (if pageerror_on s then emit (Print (''[Browser Error] '' @ err)) s else s)
      in if handle_error_on s1 then s1\<lparr>js_errors := js_errors s1 @ [err]\<rparr> else s1)"

text \<open>
  A call into the world: it is logged, the world moves on, the events that arrived are
  handled, and the call raises or returns.
\<close>

definition call :: "call \<Rightarrow> ('w \<Rightarrow> 'a reply \<times> 'w) \<Rightarrow> ('w, 'a) m" where
  "call c f s =
     (case f (world s) of
        ((evs, r), w') \<Rightarrow> (r, fold dispatch evs (emit (Call c) (s\<lparr>world := w'\<rparr>))))"

definition goto :: "'w browser \<Rightarrow> string \<Rightarrow> ('w, unit) m" where
  "goto ops u = call (Goto u) (goto_r ops u)"

definition screenshot :: "'w browser \<Rightarrow> string \<Rightarrow> ('w, unit) m" where
  "screenshot ops p = call (Screenshot p) (screenshot_r ops p)"

definition title :: "'w browser \<Rightarrow> ('w, string) m" where
  "title ops = call Title (title_r ops)"

definition url :: "'w browser \<Rightarrow> ('w, string) m" where
  "url ops = call Url (url_r ops)"

definition content :: "'w browser \<Rightarrow> ('w, string) m" where
  "content ops = call Content (content_r ops)"

definition wait_for_timeout :: "'w browser \<Rightarrow> nat \<Rightarrow> ('w, unit) m" where
  "wait_for_timeout ops ms = call (WaitForTimeout ms) (wait_for_timeout_r ops ms)"

definition get :: "'w browser \<Rightarrow> string \<Rightarrow> ('w, nat) m" where
  "get ops u = call (Get u) (get_r ops u)"

text \<open>\<^verbatim>\<open>page.locator(sel).count() > 0\<close> and \<^verbatim>\<open>sub in page.url\<close>.\<close>

definition count_gt0 :: "'w browser \<Rightarrow> string \<Rightarrow> ('w, bool) m" where
  "count_gt0 ops sel = bnd (call (Count sel) (count_r ops sel)) (\<lambda>n. ret (0 < n))"

definition url_has :: "'w browser \<Rightarrow> string \<Rightarrow> ('w, bool) m" where
  "url_has ops sub = bnd (url ops) (\<lambda>u. ret (is_in sub u))"

text \<open>\<^verbatim>\<open>os.path.exists\<close> reads the file system and does not raise on a string.\<close>

definition path_exists :: "'w browser \<Rightarrow> string \<Rightarrow> ('w, bool) m" where
  "path_exists ops p s = (Inr (path_exists_r ops (world s) p), emit (Call (PathExists p)) s)"

subsection \<open>\<^verbatim>\<open>log_test\<close> (lines 26-35)\<close>

definition pass_prefix :: string where
  "pass_prefix = check_mark @ '' PASS: ''"

definition fail_prefix :: string where
  "fail_prefix = cross_mark @ '' FAIL: ''"

definition record_test :: "string \<Rightarrow> bool \<Rightarrow> results \<Rightarrow> results" where
  "record_test name ok rs =
     (let rs1 = rs\<lparr>total_r := total_r rs + 1\<rparr>
      in if ok then rs1\<lparr>passed := passed rs1 @ [name]\<rparr>
         else rs1\<lparr>failed := failed rs1 @ [name]\<rparr>)"

definition log_test :: "string \<Rightarrow> bool \<Rightarrow> string \<Rightarrow> ('w, unit) m" where
  "log_test name ok details =
     seq (modify (\<lambda>s. s\<lparr>results := record_test name ok (results s)\<rparr>))
    (seq (print ((if ok then pass_prefix else fail_prefix) @ name))
         (if details \<noteq> [] then print (''   Details: '' @ details) else ret ()))"

subsection \<open>The check steps (lines 54-200)\<close>

text \<open>
  Each step is the block of statements under one \<^verbatim>\<open># Test n\<close> comment of the
  \<^verbatim>\<open>try\<close> body, statement by statement. Every \<^verbatim>\<open>goto\<close> passes
  \<^verbatim>\<open>wait_until='networkidle'\<close> and every screenshot \<^verbatim>\<open>full_page=True\<close>.
\<close>

definition check1 :: "'w browser \<Rightarrow> ('w, unit) m" where
  "check1 ops =
     seq (print (newline @ round_pin @ '' Test 1: Home Page Access''))
    (seq (goto ops ''http://localhost:3000'')
    (seq (screenshot ops ''/tmp/homepage.png'')
    (bnd (and_also (bnd (title ops) (\<lambda>t. ret (t \<noteq> [])))
                   (bnd (url ops) (\<lambda>u. ret (\<not> is_in ''error'' (lower u)))))
      (\<lambda>home_loaded.
     bnd (title ops)
      (\<lambda>t. log_test ''Home page loads successfully'' home_loaded (''Title: '' @ t))))))"

definition check2 :: "'w browser \<Rightarrow> ('w, unit) m" where
  \<open>check2 ops =
     seq (print (newline @ round_pin @ '' Test 2: Login Page''))
    (seq (goto ops ''http://localhost:3000/login'')
    (seq (screenshot ops ''/tmp/login.png'')
    (bnd (count_gt0 ops ''input[type="email"]'') (\<lambda>has_email_input.
     bnd (count_gt0 ops ''input[type="password"]'') (\<lambda>has_password_input.
     bnd (or_else (count_gt0 ops ''button[type="submit"]'')
                  (count_gt0 ops ''button:has-text("Sign in")'')) (\<lambda>has_submit_button.
     log_test ''Login page has required form elements''
       (has_email_input \<and> has_password_input \<and> has_submit_button)
       (''Email: '' @ show_bool has_email_input @ '', Password: ''
          @ show_bool has_password_input @ '', Submit: '' @ show_bool has_submit_button)))))))\<close>

definition check3 :: "'w browser \<Rightarrow> ('w, unit) m" where
  \<open>check3 ops =
     seq (print (newline @ round_pin @ '' Test 3: Dashboard Authentication''))
    (seq (goto ops ''http://localhost:3000/dashboard'')
    (seq (screenshot ops ''/tmp/dashboard-unauth.png'')
    (bnd (or_else (or_else (url_has ops ''login'') (url_has ops ''auth''))
                  (count_gt0 ops ''input[type="email"]'')) (\<lambda>redirected_to_login.
     bnd (url ops) (\<lambda>u.
     log_test ''Dashboard redirects unauthenticated users'' redirected_to_login
       (''Current URL: '' @ u))))))\<close>

definition check4 :: "'w browser \<Rightarrow> ('w, unit) m" where
  \<open>check4 ops =
     seq (print (newline @ round_pin @ '' Test 4: Onboarding Page''))
    (seq (goto ops ''http://localhost:3000/onboarding'')
    (seq (screenshot ops ''/tmp/onboarding.png'')
    (bnd (or_else (count_gt0 ops ''input[name="organizationName"]'')
                  (count_gt0 ops ''input[placeholder*="organization"]'')) (\<lambda>has_org_name_input.
     bnd (count_gt0 ops ''button:has-text("Create")'') (\<lambda>has_create_button.
     bnd (or_else (or_else (ret has_org_name_input) (ret has_create_button))
                  (bnd (content ops) (\<lambda>c. ret (is_in ''organization'' (lower c)))))
       (\<lambda>onboarding_exists.
     log_test ''Onboarding page exists with organization creation'' onboarding_exists
       (''Has org input: '' @ show_bool has_org_name_input @ '', Has create button: ''
          @ show_bool has_create_button)))))))\<close>

text \<open>
  Step 5 calls \<^verbatim>\<open>log_test\<close> twice, once for each API endpoint.
  \<^verbatim>\<open>api_response.status in [200, 401]\<close> is the membership test.
\<close>

definition check5 :: "'w browser \<Rightarrow> ('w, unit) m" where
  "check5 ops =
     seq (print (newline @ round_pin @ '' Test 5: Critical API Endpoints''))
    (bnd (get ops ''http://localhost:3000/api/auth/me'') (\<lambda>status.
     seq (log_test ''API /auth/me endpoint responds'' (status \<in> set [200, 401])
            (''Status: '' @ show_nat status))
    (bnd (get ops ''http://localhost:3000/api/organizations'') (\<lambda>status.
     log_test ''API /organizations endpoint responds'' (status \<in> set [200, 401])
       (''Status: '' @ show_nat status)))))"

definition check6 :: "'w browser \<Rightarrow> ('w, unit) m" where
  \<open>check6 ops =
     seq (print (newline @ round_pin @ '' Test 6: Team Management Page''))
    (seq (goto ops ''http://localhost:3000/dashboard/team'')
    (seq (screenshot ops ''/tmp/team-page.png'')
    (bnd (or_else (or_else (count_gt0 ops ''h1:has-text("Team")'') (url_has ops ''login''))
                  (url_has ops ''onboarding'')) (\<lambda>team_page_accessible.
     bnd (url ops) (\<lambda>u.
     log_test ''Team page exists in routing'' team_page_accessible
       (''Current URL: '' @ u))))))\<close>

definition check7 :: "'w browser \<Rightarrow> ('w, unit) m" where
  \<open>check7 ops =
     seq (print (newline @ round_pin @ '' Test 7: Dashboard UI Components''))
    (seq (goto ops ''http://localhost:3000/dashboard'')
    (seq (wait_for_timeout ops 2000)
    (seq (screenshot ops ''/tmp/dashboard-full.png'')
    (bnd (or_else (or_else (count_gt0 ops ''nav'') (count_gt0 ops ''aside''))
                  (count_gt0 ops ''[role="navigation"]'')) (\<lambda>has_navigation.
     bnd (or_else (count_gt0 ops ''main'') (count_gt0 ops ''[role="main"]'')) (\<lambda>has_content.
     bnd (or_else (or_else (ret has_navigation) (ret has_content)) (url_has ops ''login''))
       (\<lambda>dashboard_structured.
     log_test ''Dashboard has proper structure'' dashboard_structured
       (''Has nav: '' @ show_bool has_navigation @ '', Has main: ''
          @ show_bool has_content))))))))\<close>

text \<open>
  Step 8. The loop of lines 154-162: \<^verbatim>\<open>all_protected\<close> starts as
  \<^verbatim>\<open>True\<close>; the first route that is not protected sets it to \<^verbatim>\<open>False\<close> and
  leaves the loop.
\<close>

definition protected_routes :: "string list" where
  "protected_routes = [''/dashboard/analytics'', ''/dashboard/conversations'', ''/dashboard/settings'']"

definition is_protected :: "'w browser \<Rightarrow> ('w, bool) m" where
  \<open>is_protected ops =
     or_else (or_else (url_has ops ''login'') (url_has ops ''onboarding''))
             (count_gt0 ops ''input[type="email"]'')\<close>

fun all_protected :: "'w browser \<Rightarrow> string list \<Rightarrow> ('w, bool) m" where
  "all_protected ops [] = ret True"
| "all_protected ops (route # routes) =
     seq (goto ops (''http://localhost:3000'' @ route))
    (bnd (is_protected ops) (\<lambda>p. if \<not> p then ret False else all_protected ops routes))"

definition check8 :: "'w browser \<Rightarrow> ('w, unit) m" where
  "check8 ops =
     seq (print (newline @ round_pin @ '' Test 8: Middleware Route Protection''))
    (bnd (all_protected ops protected_routes) (\<lambda>ok.
     log_test ''Middleware protects all dashboard routes'' ok
       (''Tested '' @ show_nat (length protected_routes) @ '' routes'')))"

text \<open>
  Step 9. \<^verbatim>\<open>js_errors\<close> starts empty, \<^verbatim>\<open>handle_error\<close> is registered, the
  four pages are visited, and the errors collected meanwhile are counted. At most five
  of them are printed.
\<close>

definition test_pages :: "string list" where
  "test_pages = [''/'', ''/login'', ''/dashboard'', ''/onboarding'']"

fun visit_pages :: "'w browser \<Rightarrow> string list \<Rightarrow> ('w, unit) m" where
  "visit_pages ops [] = ret ()"
| "visit_pages ops (test_page # rest) =
     seq (goto ops (''http://localhost:3000'' @ test_page))
    (seq (wait_for_timeout ops 1000) (visit_pages ops rest))"

fun print_all :: "string list \<Rightarrow> ('w, unit) m" where
  "print_all [] = ret ()"
| "print_all (l # ls) = seq (print l) (print_all ls)"

definition check9 :: "'w browser \<Rightarrow> ('w, unit) m" where
  "check9 ops =
     seq (print (newline @ round_pin @ '' Test 9: JavaScript Error Detection''))
    (seq (modify (\<lambda>s. s\<lparr>js_errors := []\<rparr>))
    (seq (call (On ''pageerror'') (on_r ops ''pageerror''))
    (seq (modify (\<lambda>s. s\<lparr>handle_error_on := True\<rparr>))
    (seq (visit_pages ops test_pages)
    (bnd (\<lambda>s. (Inr (js_errors s), s)) (\<lambda>errs.
     seq (log_test ''No JavaScript errors on main pages'' (length errs = 0)
            (''Errors found: '' @ show_nat (length errs)))
         (if errs \<noteq> []
          then seq (print (newline @ ''   JavaScript Errors Detected:''))
                   (print_all (map (\<lambda>error. ''   - '' @ error) (take 5 errs)))
          else ret ())))))))"

definition check10 :: "'w browser \<Rightarrow> ('w, unit) m" where
  "check10 ops =
     seq (print (newline @ round_pin @ '' Test 10: Build Artifacts''))
    (bnd (path_exists ops ''/Users/jamesguy/Omniops/.next'') (\<lambda>next_dir_exists.
     bnd (and_also (ret next_dir_exists)
                   (path_exists ops ''/Users/jamesguy/Omniops/.next/BUILD_ID'')) (\<lambda>build_complete.
     log_test ''Production build artifacts exist'' build_complete
       (''.next directory: '' @ show_bool next_dir_exists))))"

subsection \<open>The run (lines 17-238)\<close>

text \<open>The steps in the order of the source, and the body of the \<^verbatim>\<open>try\<close>.\<close>

definition check_steps :: "'w browser \<Rightarrow> ('w, unit) m list" where
  "check_steps ops =
     [check1 ops, check2 ops, check3 ops, check4 ops, check5 ops,
      check6 ops, check7 ops, check8 ops, check9 ops, check10 ops]"

fun run_steps :: "('w, unit) m list \<Rightarrow> ('w, unit) m" where
  "run_steps [] = ret ()"
| "run_steps (c # cs) = seq c (run_steps cs)"

definition print_banner :: "('w, unit) m" where
  "print_banner =
     seq (print (newline @ rule60))
    (seq (print (test_tube @ '' Starting Organization Migration E2E Tests''))
         (print (rule60 @ newline)))"

definition try_body :: "'w browser \<Rightarrow> ('w, unit) m" where
  "try_body ops = seq print_banner (run_steps (check_steps ops))"

text \<open>The \<^verbatim>\<open>except Exception as e\<close> clause (lines 202-205).\<close>

definition report_error :: "exn \<Rightarrow> ('w, unit) m" where
  "report_error e =
     seq (print (newline @ cross_mark @ '' Test suite encountered an error: '' @ e))
         (modify (emit (Traceback e)))"

text \<open>The summary of the \<^verbatim>\<open>finally\<close> clause (lines 211-230).\<close>

definition pass_rate :: "results \<Rightarrow> string" where
  "pass_rate rs =
     (if 0 < total_r rs then format_1f (1000 * length (passed rs)) (nat (total_r rs))
      else ''0.0'')"

definition print_summary :: "('w, unit) m" where
  "print_summary =
     bnd (\<lambda>s. (Inr (results s), s)) (\<lambda>rs.
     seq (print (newline @ rule60))
    (seq (print (bar_chart @ '' TEST SUMMARY''))
    (seq (print rule60)
    (seq (print (''Total Tests: '' @ show_int (total_r rs)))
    (seq (print (check_mark @ '' Passed: '' @ show_nat (length (passed rs))))
    (seq (print (cross_mark @ '' Failed: '' @ show_nat (length (failed rs))))
    (seq (if passed rs \<noteq> []
          then seq (print (newline @ check_mark @ '' Passed Tests:''))
                   (print_all (map (\<lambda>test. ''   - '' @ test) (passed rs)))
          else ret ())
    (seq (if failed rs \<noteq> []
          then seq (print (newline @ cross_mark @ '' Failed Tests:''))
                   (print_all (map (\<lambda>test. ''   - '' @ test) (failed rs)))
          else ret ())
         (print (newline @ chart_up @ '' Pass Rate: '' @ pass_rate rs @ ''%''))))))))))"

text \<open>
  How the function is left: through \<^verbatim>\<open>sys.exit(code)\<close>, or by an exception that
  nothing in it catches. The interpreter ends with status 1 on such an exception, after
  printing its stack trace.
\<close>

datatype outcome = Exit nat | Uncaught exn

definition exit_status :: "outcome \<Rightarrow> nat" where
  "exit_status oc = (case oc of Exit code \<Rightarrow> code | Uncaught e \<Rightarrow> 1)"

text \<open>The last statement of the \<^verbatim>\<open>finally\<close> clause (lines 232-238).\<close>

definition exit_on_results :: "'w run_state \<Rightarrow> outcome \<times> 'w run_state" where
  "exit_on_results s =
     (if 0 < length (failed (results s))
      then (Exit 1, emit (Print (newline @ warning_sign
              @ ''  Some tests failed. Review the results above.'')) s)
      else (Exit 0, emit (Print (newline @ party_popper @ '' All tests passed!'')) s))"

text \<open>
  The \<^verbatim>\<open>try\<close> statement (lines 49-238): the body; the handler when the body
  raised; then, on both paths, the \<^verbatim>\<open>finally\<close> clause:
  \<^verbatim>\<open>browser.close()\<close>, the summary and the exit. An exception of
  \<^verbatim>\<open>browser.close()\<close> leaves the \<^verbatim>\<open>finally\<close> clause at once.
\<close>

definition except_clause :: "exn + unit \<Rightarrow> 'w run_state \<Rightarrow> 'w run_state" where
  "except_clause r s = (case r of Inl e \<Rightarrow> snd (report_error e s) | Inr _ \<Rightarrow> s)"

definition finally_clause :: "'w browser \<Rightarrow> 'w run_state \<Rightarrow> outcome \<times> 'w run_state" where
  "finally_clause ops s =
     (case call Close (close_r ops) s of
        (Inl e, s1) \<Rightarrow> (Uncaught e, s1)
      | (Inr _, s1) \<Rightarrow> exit_on_results (snd (print_summary s1)))"

definition try_statement :: "'w browser \<Rightarrow> 'w run_state \<Rightarrow> outcome \<times> 'w run_state" where
  "try_statement ops s =
     (case try_body ops s of (r, s1) \<Rightarrow> finally_clause ops (except_clause r s1))"

text \<open>
  Lines 39-47, before the \<^verbatim>\<open>try\<close>: the browser, its context and the page, and
  the two printing handlers.
\<close>

definition acquire :: "'w browser \<Rightarrow> ('w, unit) m" where
  "acquire ops =
     seq (call Launch (launch_r ops))
    (seq (call NewContext (new_context_r ops))
    (seq (call NewPage (new_page_r ops))
    (seq (call (On ''console'') (on_r ops ''console''))
    (seq (modify (\<lambda>s. s\<lparr>console_on := True\<rparr>))
    (seq (call (On ''pageerror'') (on_r ops ''pageerror''))
         (modify (\<lambda>s. s\<lparr>pageerror_on := True\<rparr>)))))))"

definition initial :: "'w \<Rightarrow> 'w run_state" where
  "initial w =
     \<lparr>world = w, results = \<lparr>passed = [], failed = [], total_r = 0\<rparr>, trace = [],
      console_on = False, pageerror_on = False, js_errors = [], handle_error_on = False\<rparr>"

text \<open>
  The whole function. \<^verbatim>\<open>with sync_playwright() as p\<close> enters the context
  manager, and leaves it (\<open>Stop\<close>) however its block ends; the manager does not
  swallow what passes through it.
\<close>

definition test_organization_flows :: "'w browser \<Rightarrow> 'w \<Rightarrow> outcome \<times> 'w run_state" where
  "test_organization_flows ops w =
     (case call SyncPlaywright (sync_playwright_r ops) (initial w) of
        (Inl e, s0) \<Rightarrow> (Uncaught e, s0)
      | (Inr _, s0) \<Rightarrow>
          (case (case acquire ops s0 of
                   (Inl e, s1) \<Rightarrow> (Uncaught e, s1)
                 | (Inr _, s1) \<Rightarrow> try_statement ops s1) of
             (oc, s2) \<Rightarrow> (oc, emit (Call Stop) s2)))"

text \<open>What the run printed.\<close>

definition transcript :: "'w run_state \<Rightarrow> string list" where
  "transcript s = [l. Print l \<leftarrow> trace s]"

section \<open>Vocabulary of the properties\<close>

subsection \<open>The check lines of a trace\<close>

text \<open>
  \<^verbatim>\<open>log_test\<close> prints one line per check, the pass or fail mark followed by the
  check's name. Read back from a trace, these lines give the checks in the order in which
  they were logged, each with its verdict.
\<close>

definition parse_check :: "event \<Rightarrow> (string \<times> bool) option" where
  "parse_check ev =
     (case ev of
        Print l \<Rightarrow>
          if starts_with pass_prefix l then Some (drop (length pass_prefix) l, True)
          else if starts_with fail_prefix l then Some (drop (length fail_prefix) l, False)
          else None
      | _ \<Rightarrow> None)"

definition logged :: "event list \<Rightarrow> (string \<times> bool) list" where
  "logged evs = List.map_filter parse_check evs"

definition names :: "event list \<Rightarrow> string list" where
  "names evs = map fst (logged evs)"

text \<open>
  The names under which the source logs its checks, in the order of the source text.
  The fifth step logs two.
\<close>

definition check_names :: "string list" where
  "check_names =
     [''Home page loads successfully'',
      ''Login page has required form elements'',
      ''Dashboard redirects unauthenticated users'',
      ''Onboarding page exists with organization creation'',
      ''API /auth/me endpoint responds'',
      ''API /organizations endpoint responds'',
      ''Team page exists in routing'',
      ''Dashboard has proper structure'',
      ''Middleware protects all dashboard routes'',
      ''No JavaScript errors on main pages'',
      ''Production build artifacts exist'']"

subsection \<open>The results dictionary\<close>

definition no_results :: results where
  "no_results = \<lparr>passed = [], failed = [], total_r = 0\<rparr>"

text \<open>Recording a list of checks, one after the other, as \<^verbatim>\<open>log_test\<close> does.\<close>

definition record_all :: "results \<Rightarrow> (string \<times> bool) list \<Rightarrow> results" where
  "record_all rs xs = foldl (\<lambda>rs (name, ok). record_test name ok rs) rs xs"

text \<open>The counter agrees with the two lists.\<close>

definition consistent :: "results \<Rightarrow> bool" where
  "consistent rs = (total_r rs = int (length (passed rs)) + int (length (failed rs)))"

subsection \<open>The parts of a run\<close>

text \<open>
  Lines 37-47 from the initial state: entering \<^verbatim>\<open>sync_playwright()\<close> and
  acquiring the browser, the context, the page and the two handlers. The session is
  acquired when this returns \<open>Inr ()\<close>.
\<close>

definition session :: "'w browser \<Rightarrow> 'w \<Rightarrow> (exn + unit) \<times> 'w run_state" where
  "session ops w = seq (call SyncPlaywright (sync_playwright_r ops)) (acquire ops) (initial w)"

text \<open>The body of the \<^verbatim>\<open>try\<close>, run from the state the acquisition leaves.\<close>

definition body_run :: "'w browser \<Rightarrow> 'w \<Rightarrow> (exn + unit) \<times> 'w run_state" where
  "body_run ops w = try_body ops (snd (session ops w))"

definition outcome_of :: "'w browser \<Rightarrow> 'w \<Rightarrow> outcome" where
  "outcome_of ops w = fst (test_organization_flows ops w)"

definition final :: "'w browser \<Rightarrow> 'w \<Rightarrow> 'w run_state" where
  "final ops w = snd (test_organization_flows ops w)"

text \<open>The line of the \<^verbatim>\<open>except\<close> clause for an exception \<open>e\<close>.\<close>

definition error_line :: "exn \<Rightarrow> string" where
  "error_line e = newline @ cross_mark @ '' Test suite encountered an error: '' @ e"

text \<open>The second line of the summary, and the lines of the \<^verbatim>\<open>except\<close> clause.\<close>

definition summary_header :: string where
  "summary_header = bar_chart @ '' TEST SUMMARY''"

definition handler_events :: "exn + unit \<Rightarrow> event list" where
  "handler_events r =
     (case r of
        Inl e \<Rightarrow> [Print (error_line e), Traceback e]
      | Inr _ \<Rightarrow> [])"

text \<open>
  The first \<open>k\<close> check steps, run after the banner of lines 50-52 from the state the
  acquisition leaves: the result of the last of them and the state before step \<open>k + 1\<close>.
\<close>

definition steps_before :: "'w browser \<Rightarrow> 'w \<Rightarrow> nat \<Rightarrow> (exn + unit) \<times> 'w run_state" where
  "steps_before ops w k =
     run_steps (take k (check_steps ops)) (snd (print_banner (snd (session ops w))))"

subsection \<open>The sweep over the protected routes\<close>





subsection \<open>Two worlds that answer alike\<close>



section \<open>Sample applications\<close>

text \<open>
  Concrete worlds on which the definitions can be evaluated. The state of the world is
  the address the page is at. In the first application every dashboard address sends an
  unauthenticated visitor to the login page, the login page has its form, the API asks
  for authentication, no page raises a script error and the build output is in place.
\<close>

definition landing :: "string \<Rightarrow> string" where
  "landing u = (if is_in ''/dashboard'' u then ''http://localhost:3000/login'' else u)"

definition well_guarded :: "string browser" where
  \<open>well_guarded =
     \<lparr>sync_playwright_r = (\<lambda>w. (([], Inr ()), w)),
      launch_r = (\<lambda>w. (([], Inr ()), w)),
      new_context_r = (\<lambda>w. (([], Inr ()), w)),
      new_page_r = (\<lambda>w. (([], Inr ()), w)),
      on_r = (\<lambda>name w. (([], Inr ()), w)),
      goto_r = (\<lambda>u w. (([], Inr ()), landing u)),
      screenshot_r = (\<lambda>p w. (([], Inr ()), w)),
      title_r = (\<lambda>w. (([], Inr ''Omniops''), w)),
      url_r = (\<lambda>w. (([], Inr w), w)),
      count_r = (\<lambda>sel w. (([], Inr (if is_in ''/login'' w \<and>
           sel \<in> set [''input[type="email"]'', ''input[type="password"]'',
                       ''button[type="submit"]'']
           then 1 else 0)), w)),
      content_r = (\<lambda>w. (([], Inr ''<h1>Create your Organization</h1>''), w)),
      wait_for_timeout_r = (\<lambda>ms w. (([], Inr ()), w)),
      get_r = (\<lambda>u w. (([], Inr 401), w)),
      close_r = (\<lambda>w. (([], Inr ()), w)),
      path_exists_r = (\<lambda>w p. True)\<rparr>\<close>

text \<open>The same application with one dashboard route left open to everybody.\<close>

definition one_route_open :: "string browser" where
  "one_route_open =
     well_guarded\<lparr>goto_r := (\<lambda>u w. (([], Inr ()),
        if u = ''http://localhost:3000/dashboard/conversations'' then u else landing u))\<rparr>"

text \<open>The browser cannot be launched.\<close>

definition no_browser :: "string browser" where
  "no_browser =
     well_guarded\<lparr>launch_r := (\<lambda>w. (([], Inl ''BrowserType.launch: Executable does not exist''), w))\<rparr>"

text \<open>The API does not answer: the request of step 5 runs into its timeout.\<close>

definition api_down :: "string browser" where
  "api_down =
     well_guarded\<lparr>get_r := (\<lambda>u w. (([], Inl ''APIRequestContext.get: Timeout 30000ms exceeded''), w))\<rparr>"

text \<open>The application is not running: every navigation is refused.\<close>

definition server_down :: "string browser" where
  "server_down =
     well_guarded\<lparr>goto_r := (\<lambda>u w. (([], Inl ''Page.goto: net::ERR_CONNECTION_REFUSED''), w))\<rparr>"

definition blank :: string where
  "blank = ''about:blank''"



section \<open>Reasoning about the run\<close>

subsection \<open>What a statement may add to the trace\<close>

text \<open>
  An event that the statements before the \<^verbatim>\<open>finally\<close> clause can produce: any
  call but \<^verbatim>\<open>browser.close()\<close> and the exit of the context manager, and any
  line but the header of the summary.
\<close>

definition body_event :: "event \<Rightarrow> bool" where
  "body_event ev =
     (case ev of
        Call c \<Rightarrow> c \<noteq> Close \<and> c \<noteq> Stop
      | Traceback e \<Rightarrow> False
      | Print l \<Rightarrow> l \<noteq> summary_header)"

text \<open>
  \<open>logs A m ns\<close>: whenever \<open>m\<close> runs, it only appends to the trace, the events it
  appends satisfy \<open>A\<close>, the results change by exactly the checks whose lines it
  appends, and these checks are named \<open>ns\<close> when \<open>m\<close> returns and an initial
  part of \<open>ns\<close> when it raises.
\<close>

definition logs :: "(event \<Rightarrow> bool) \<Rightarrow> ('w, 'a) m \<Rightarrow> string list \<Rightarrow> bool" where
  "logs A m ns =
     (\<forall>s r s'. m s = (r, s') \<longrightarrow>
        (\<exists>d. trace s' = trace s @ d \<and> list_all A d
           \<and> results s' = record_all (results s) (logged d)
           \<and> (case r of Inr _ \<Rightarrow> names d = ns | Inl _ \<Rightarrow> \<exists>k. names d = take k ns)))"

text \<open>The lines that a handler or \<^verbatim>\<open>log_test\<close> may print, whatever their arguments.\<close>

definition admits :: "(event \<Rightarrow> bool) \<Rightarrow> bool" where
  "admits A =
     ((\<forall>ty txt. A (Print (''[Browser Console] '' @ ty @ '': '' @ txt)))
    \<and> (\<forall>err. A (Print (''[Browser Error] '' @ err)))
    \<and> (\<forall>n. A (Print (pass_prefix @ n)))
    \<and> (\<forall>n. A (Print (fail_prefix @ n)))
    \<and> (\<forall>d. A (Print (''   Details: '' @ d))))"

text \<open>The lines of the summary and of the exit, as functions of the results.\<close>

definition summary_lines :: "results \<Rightarrow> string list" where
  "summary_lines rs =
     [newline @ rule60, summary_header, rule60,
      ''Total Tests: '' @ show_int (total_r rs),
      check_mark @ '' Passed: '' @ show_nat (length (passed rs)),
      cross_mark @ '' Failed: '' @ show_nat (length (failed rs))]
     @ (if passed rs \<noteq> []
        then (newline @ check_mark @ '' Passed Tests:'') # map (\<lambda>test. ''   - '' @ test) (passed rs)
        else [])
     @ (if failed rs \<noteq> []
        then (newline @ cross_mark @ '' Failed Tests:'') # map (\<lambda>test. ''   - '' @ test) (failed rs)
        else [])
     @ [newline @ chart_up @ '' Pass Rate: '' @ pass_rate rs @ ''%'']"

definition exit_line :: "results \<Rightarrow> string" where
  "exit_line rs =
     (if failed rs \<noteq> [] then newline @ warning_sign @ ''  Some tests failed. Review the results above.''
      else newline @ party_popper @ '' All tests passed!'')"

subsection \<open>Running against two worlds\<close>

text \<open>
  Two states of a run are alike when the worlds are related and everything the script
  holds is equal; \<open>sim R m n\<close> says that \<open>m\<close> and \<open>n\<close>, started in states that
  are alike, raise or return the same and end in states that are alike.
\<close>

definition alike :: "('v \<Rightarrow> 'w \<Rightarrow> bool) \<Rightarrow> 'v run_state \<Rightarrow> 'w run_state \<Rightarrow> bool" where
  "alike R s t =
     (R (world s) (world t) \<and> results s = results t \<and> trace s = trace t
      \<and> console_on s = console_on t \<and> pageerror_on s = pageerror_on t
      \<and> js_errors s = js_errors t \<and> handle_error_on s = handle_error_on t)"


subsection \<open>Rules\<close>

lemma starts_with_append [simp]: "starts_with p (p @ s)"
  by (induction p) auto

lemma logged_Nil [simp]: "logged [] = []"
  by (simp add: logged_def map_filter_simps)

lemma logged_Cons: "logged (x # xs) = (case parse_check x of None \<Rightarrow> logged xs | Some c \<Rightarrow> c # logged xs)"
  by (simp add: logged_def map_filter_simps split: option.splits)

lemma logged_append [simp]: "logged (xs @ ys) = logged xs @ logged ys"
  by (induction xs) (simp_all add: logged_Cons split: option.splits)

lemma names_Nil [simp]: "names [] = []"
  by (simp add: names_def)

lemma names_append [simp]: "names (xs @ ys) = names xs @ names ys"
  by (simp add: names_def)

lemma record_all_Nil [simp]: "record_all rs [] = rs"
  by (simp add: record_all_def)

lemma record_all_append [simp]: "record_all rs (xs @ ys) = record_all (record_all rs xs) ys"
  by (simp add: record_all_def)

lemma record_all_Cons [simp]:
  "record_all rs (x # xs) = record_all (record_test (fst x) (snd x) rs) xs"
  by (simp add: record_all_def case_prod_unfold)

lemma parse_check_Call [simp]: "parse_check (Call c) = None"
  by (simp add: parse_check_def)

lemma parse_check_Traceback [simp]: "parse_check (Traceback e) = None"
  by (simp add: parse_check_def)

lemma parse_check_pass [simp]: "parse_check (Print (pass_prefix @ n)) = Some (n, True)"
  by (simp add: parse_check_def)

lemma parse_check_fail [simp]: "parse_check (Print (fail_prefix @ n)) = Some (n, False)"
  by (simp add: parse_check_def) (simp add: pass_prefix_def fail_prefix_def check_mark_def cross_mark_def)

lemma parse_check_other [simp]: "c \<noteq> CHR 0xE2 \<Longrightarrow> parse_check (Print (c # l)) = None"
  by (simp add: parse_check_def pass_prefix_def fail_prefix_def check_mark_def cross_mark_def)

lemma parse_check_newline [simp]: "parse_check (Print (newline @ x)) = None"
  by (simp add: newline_def)

lemma logsI:
  assumes "\<And>s r s'. m s = (r, s') \<Longrightarrow>
        \<exists>d. trace s' = trace s @ d \<and> list_all A d
           \<and> results s' = record_all (results s) (logged d)
           \<and> (case r of Inr _ \<Rightarrow> names d = ns | Inl _ \<Rightarrow> \<exists>k. names d = take k ns)"
  shows "logs A m ns"
  using assms unfolding logs_def by blast

lemma logsD:
  assumes "logs A m ns" "m s = (r, s')"
  obtains d where "trace s' = trace s @ d" "list_all A d"
           "results s' = record_all (results s) (logged d)"
           "case r of Inr _ \<Rightarrow> names d = ns | Inl _ \<Rightarrow> \<exists>k. names d = take k ns"
  using assms unfolding logs_def by blast

lemma logs_ret: "logs A (ret x) []"
  by (rule logsI) (auto simp: ret_def)

lemma logs_modify:
  assumes "\<And>s. trace (f s) = trace s" "\<And>s. results (f s) = results s"
  shows "logs A (modify f) []"
  by (rule logsI) (auto simp: modify_def assms)

lemma logs_print:
  assumes "A (Print l)" "parse_check (Print l) = None"
  shows "logs A (print l) []"
  by (rule logsI) (auto simp: print_def modify_def emit_def assms logged_Cons names_def)

lemma logs_bnd:
  assumes m: "logs A m ns" and f: "\<And>x. logs A (f x) ms"
  shows "logs A (bnd m f) (ns @ ms)"
proof (rule logsI)
  fix s r s'
  assume run: "bnd m f s = (r, s')"
  obtain r1 s1 where m1: "m s = (r1, s1)" by (cases "m s")
  from logsD [OF m m1] obtain d1 where d1: "trace s1 = trace s @ d1" "list_all A d1"
      "results s1 = record_all (results s) (logged d1)"
      "case r1 of Inr _ \<Rightarrow> names d1 = ns | Inl _ \<Rightarrow> \<exists>k. names d1 = take k ns"
    by blast
  show "\<exists>d. trace s' = trace s @ d \<and> list_all A d
           \<and> results s' = record_all (results s) (logged d)
           \<and> (case r of Inr _ \<Rightarrow> names d = ns @ ms | Inl _ \<Rightarrow> \<exists>k. names d = take k (ns @ ms))"
  proof (cases r1)
    case (Inl e)
    with run m1 have eq: "r = Inl e" "s' = s1" by (auto simp: bnd_def)
    from d1 Inl obtain k where k: "names d1 = take k ns" by auto
    have "names d1 = take (min k (length ns)) (ns @ ms)"
      using k by (simp add: min_def)
    then have "\<exists>j. names d1 = take j (ns @ ms)" by blast
    with d1 eq show ?thesis by auto
  next
    case (Inr x)
    with run m1 have fx: "f x s1 = (r, s')" by (auto simp: bnd_def)
    from logsD [OF f fx] obtain d2 where d2: "trace s' = trace s1 @ d2" "list_all A d2"
      "results s' = record_all (results s1) (logged d2)"
      "case r of Inr _ \<Rightarrow> names d2 = ms | Inl _ \<Rightarrow> \<exists>k. names d2 = take k ms"
      by blast
    from d1 Inr have n1: "names d1 = ns" by simp
    have "case r of Inr _ \<Rightarrow> names (d1 @ d2) = ns @ ms | Inl _ \<Rightarrow> \<exists>k. names (d1 @ d2) = take k (ns @ ms)"
    proof (cases r)
      case (Inl e)
      with d2 obtain k where "names d2 = take k ms" by auto
      then have "names (d1 @ d2) = take (length ns + k) (ns @ ms)" using n1 by simp
      then have "\<exists>j. names (d1 @ d2) = take j (ns @ ms)" by blast
      with Inl show ?thesis by simp
    next
      case (Inr y)
      with d2 n1 show ?thesis by simp
    qed
    with d1 d2 show ?thesis by (intro exI [of _ "d1 @ d2"]) simp
  qed
qed

lemma logs_bnd_quiet:
  assumes "logs A m []" "\<And>x. logs A (f x) ns"
  shows "logs A (bnd m f) ns"
  using logs_bnd [OF assms] by simp

lemma logs_seq_quiet:
  assumes "logs A m []" "logs A m2 ns"
  shows "logs A (seq m m2) ns"
  unfolding seq_def using assms by (intro logs_bnd_quiet)

lemma logs_seq:
  assumes "logs A m ns" "logs A m2 ms"
  shows "logs A (seq m m2) (ns @ ms)"
  unfolding seq_def using assms by (intro logs_bnd)

lemma logs_if:
  assumes "logs A m1 ns" "logs A m2 ns"
  shows "logs A (if b then m1 else m2) ns"
  using assms by simp

lemma logs_or_else:
  assumes "logs A m1 []" "logs A m2 []"
  shows "logs A (or_else m1 m2) []"
  unfolding or_else_def using assms by (intro logs_bnd_quiet logs_if logs_ret)

lemma logs_and_also:
  assumes "logs A m1 []" "logs A m2 []"
  shows "logs A (and_also m1 m2) []"
  unfolding and_also_def using assms by (intro logs_bnd_quiet logs_if logs_ret)

lemma dispatch_trace:
  assumes "admits A"
  shows "\<exists>d. trace (dispatch ev s) = trace s @ d \<and> list_all A d \<and> logged d = []
     \<and> results (dispatch ev s) = results s"
proof (cases ev)
  case (ConsoleMsg ty msg)
  with assms show ?thesis
    by (auto simp: admits_def emit_def logged_Cons)
next
  case (PageError err)
  with assms show ?thesis
    by (auto simp: admits_def emit_def logged_Cons Let_def)
qed

lemma fold_dispatch_trace:
  assumes "admits A"
  shows "\<exists>d. trace (fold dispatch evs s) = trace s @ d \<and> list_all A d \<and> logged d = []
     \<and> results (fold dispatch evs s) = results s"
proof (induction evs arbitrary: s)
  case Nil
  show ?case by simp
next
  case (Cons ev evs)
  from dispatch_trace [OF assms, of ev s] obtain d1 where d1:
    "trace (dispatch ev s) = trace s @ d1" "list_all A d1" "logged d1 = []"
    "results (dispatch ev s) = results s" by blast
  from Cons [of "dispatch ev s"] obtain d2 where d2:
    "trace (fold dispatch evs (dispatch ev s)) = trace (dispatch ev s) @ d2" "list_all A d2"
    "logged d2 = []" "results (fold dispatch evs (dispatch ev s)) = results (dispatch ev s)"
    by blast
  from d1 d2 show ?case by (intro exI [of _ "d1 @ d2"]) simp
qed

lemma logs_call:
  assumes "admits A" "A (Call c)"
  shows "logs A (call c f) []"
proof (rule logsI)
  fix s r s'
  assume run: "call c f s = (r, s')"
  obtain evs r0 w' where f: "f (world s) = ((evs, r0), w')" by (metis surj_pair)
  from fold_dispatch_trace [OF assms(1), of evs "emit (Call c) (s\<lparr>world := w'\<rparr>)"]
  obtain d where d: "trace (fold dispatch evs (emit (Call c) (s\<lparr>world := w'\<rparr>)))
       = trace (emit (Call c) (s\<lparr>world := w'\<rparr>)) @ d" "list_all A d" "logged d = []"
     "results (fold dispatch evs (emit (Call c) (s\<lparr>world := w'\<rparr>))) = results (emit (Call c) (s\<lparr>world := w'\<rparr>))"
    by blast
  from run f have s': "s' = fold dispatch evs (emit (Call c) (s\<lparr>world := w'\<rparr>))"
    by (simp add: call_def)
  have "trace s' = trace s @ (Call c # d)" using d s' by (simp add: emit_def)
  moreover have "list_all A (Call c # d)" using d assms by simp
  moreover have "results s' = record_all (results s) (logged (Call c # d))"
    using d s' by (simp add: emit_def logged_Cons)
  moreover have "names (Call c # d) = []" using d by (simp add: names_def logged_Cons)
  ultimately show "\<exists>d. trace s' = trace s @ d \<and> list_all A d
           \<and> results s' = record_all (results s) (logged d)
           \<and> (case r of Inr _ \<Rightarrow> names d = [] | Inl _ \<Rightarrow> \<exists>k. names d = take k [])"
    by (intro exI [of _ "Call c # d"]) (auto split: sum.splits)
qed

lemma logs_log_test:
  assumes "admits A"
  shows "logs A (log_test n ok details) [n]"
proof (rule logsI)
  fix s :: "'a run_state" and r s'
  assume run: "log_test n ok details s = (r, s')"
  let ?line = "Print ((if ok then pass_prefix else fail_prefix) @ n)"
  let ?d = "?line # (if details \<noteq> [] then [Print (''   Details: '' @ details)] else [])"
  from run have "r = Inr ()" "trace s' = trace s @ ?d"
    "results s' = record_test n ok (results s)"
    by (auto simp: log_test_def seq_def bnd_def modify_def print_def emit_def ret_def split: if_splits)
  moreover have "list_all A ?d" using assms by (auto simp: admits_def)
  moreover have "logged ?d = [(n, ok)]" by (auto simp: logged_Cons)
  ultimately show "\<exists>d. trace s' = trace s @ d \<and> list_all A d
           \<and> results s' = record_all (results s) (logged d)
           \<and> (case r of Inr _ \<Rightarrow> names d = [n] | Inl _ \<Rightarrow> \<exists>k. names d = take k [n])"
    by (intro exI [of _ ?d]) (simp add: names_def record_all_def)
qed

lemma admits_body: "admits body_event"
  by (simp add: admits_def body_event_def summary_header_def bar_chart_def pass_prefix_def
      fail_prefix_def check_mark_def cross_mark_def)

lemma admits_any: "admits (\<lambda>ev. True)"
  by (simp add: admits_def)

lemma body_event_Call: "c \<noteq> Close \<Longrightarrow> c \<noteq> Stop \<Longrightarrow> body_event (Call c)"
  by (simp add: body_event_def)

lemma body_event_Print: "c \<noteq> CHR 0xF0 \<Longrightarrow> body_event (Print (c # l))"
  by (simp add: body_event_def summary_header_def bar_chart_def)

lemma logs_banner: "logs body_event (print (newline @ l)) []"
  by (rule logs_print) (simp_all add: newline_def body_event_Print)

lemma logs_goto: "logs body_event (goto ops u) []"
  unfolding goto_def by (rule logs_call [OF admits_body]) (simp add: body_event_Call)

lemma logs_screenshot: "logs body_event (screenshot ops p) []"
  unfolding screenshot_def by (rule logs_call [OF admits_body]) (simp add: body_event_Call)

lemma logs_title: "logs body_event (title ops) []"
  unfolding title_def by (rule logs_call [OF admits_body]) (simp add: body_event_Call)

lemma logs_url: "logs body_event (url ops) []"
  unfolding url_def by (rule logs_call [OF admits_body]) (simp add: body_event_Call)

lemma logs_content: "logs body_event (content ops) []"
  unfolding content_def by (rule logs_call [OF admits_body]) (simp add: body_event_Call)

lemma logs_wait_for_timeout: "logs body_event (wait_for_timeout ops ms) []"
  unfolding wait_for_timeout_def by (rule logs_call [OF admits_body]) (simp add: body_event_Call)

lemma logs_get: "logs body_event (get ops u) []"
  unfolding get_def by (rule logs_call [OF admits_body]) (simp add: body_event_Call)

lemma logs_count_gt0: "logs body_event (count_gt0 ops sel) []"
  unfolding count_gt0_def
  by (intro logs_bnd_quiet logs_ret logs_call [OF admits_body]) (simp add: body_event_Call)

lemma logs_url_has: "logs body_event (url_has ops sub) []"
  unfolding url_has_def by (intro logs_bnd_quiet logs_ret logs_url)

lemma logs_path_exists: "logs body_event (path_exists ops p) []"
  by (rule logsI)
    (auto simp: path_exists_def emit_def body_event_Call logged_Cons names_def intro!: exI [of _ "[Call (PathExists p)]"])

lemma logs_log_test_body: "logs body_event (log_test n ok details) [n]"
  by (rule logs_log_test [OF admits_body])

lemma logs_seq_log: "logs body_event m2 ms \<Longrightarrow> logs body_event (seq (log_test n ok d) m2) (n # ms)"
  using logs_seq [OF logs_log_test_body, of m2 ms n ok d] by simp

lemmas quiet_intros =
  logs_seq_log logs_seq_quiet logs_bnd_quiet logs_or_else logs_and_also logs_ret logs_banner logs_goto
  logs_screenshot logs_title logs_url logs_content logs_wait_for_timeout logs_get
  logs_count_gt0 logs_url_has logs_path_exists logs_log_test_body

lemma logs_check1: "logs body_event (check1 ops) [''Home page loads successfully'']"
  unfolding check1_def by (intro quiet_intros)

lemma logs_check2: "logs body_event (check2 ops) [''Login page has required form elements'']"
  unfolding check2_def by (intro quiet_intros)

lemma logs_check3: "logs body_event (check3 ops) [''Dashboard redirects unauthenticated users'']"
  unfolding check3_def by (intro quiet_intros)

lemma logs_check4:
  "logs body_event (check4 ops) [''Onboarding page exists with organization creation'']"
  unfolding check4_def by (intro quiet_intros)

lemma logs_check5:
  "logs body_event (check5 ops)
     [''API /auth/me endpoint responds'', ''API /organizations endpoint responds'']"
  unfolding check5_def by (intro quiet_intros)

lemma logs_check6: "logs body_event (check6 ops) [''Team page exists in routing'']"
  unfolding check6_def by (intro quiet_intros)

lemma logs_check7: "logs body_event (check7 ops) [''Dashboard has proper structure'']"
  unfolding check7_def by (intro quiet_intros)

lemma logs_is_protected: "logs body_event (is_protected ops) []"
  unfolding is_protected_def by (intro quiet_intros)

lemma logs_all_protected: "logs body_event (all_protected ops routes) []"
  by (induction routes) (auto intro!: quiet_intros logs_is_protected logs_if)

lemma logs_check8: "logs body_event (check8 ops) [''Middleware protects all dashboard routes'']"
  unfolding check8_def by (intro quiet_intros logs_all_protected)

lemma logs_visit_pages: "logs body_event (visit_pages ops pages) []"
  by (induction pages) (auto intro!: quiet_intros)

lemma logs_print_all:
  "logs body_event (print_all (map (\<lambda>x. ''   - '' @ x) ls)) []"
  by (induction ls) (auto intro!: quiet_intros logs_print simp: body_event_Print)

lemma logs_js_errors: "logs body_event (\<lambda>s. (Inr (js_errors s), s)) []"
  by (rule logsI) auto

lemma logs_check9: "logs body_event (check9 ops) [''No JavaScript errors on main pages'']"
  unfolding check9_def
  by (intro quiet_intros logs_if logs_modify logs_visit_pages logs_js_errors logs_print_all
        logs_call [OF admits_body])
     (simp_all add: body_event_Call)

lemma logs_check10: "logs body_event (check10 ops) [''Production build artifacts exist'']"
  unfolding check10_def by (intro quiet_intros)

lemma logs_run_steps:
  assumes "logs A c ns" "logs A (run_steps cs) ms"
  shows "logs A (run_steps (c # cs)) (ns @ ms)"
  using assms by (simp add: logs_seq)

lemma logs_check_steps: "logs body_event (run_steps (check_steps ops)) check_names"
proof -
  have "logs body_event (run_steps (check_steps ops))
     ([''Home page loads successfully''] @ [''Login page has required form elements'']
      @ [''Dashboard redirects unauthenticated users'']
      @ [''Onboarding page exists with organization creation'']
      @ [''API /auth/me endpoint responds'', ''API /organizations endpoint responds'']
      @ [''Team page exists in routing''] @ [''Dashboard has proper structure'']
      @ [''Middleware protects all dashboard routes''] @ [''No JavaScript errors on main pages'']
      @ [''Production build artifacts exist''] @ [])"
    unfolding check_steps_def
    by (intro logs_run_steps logs_check1 logs_check2 logs_check3 logs_check4 logs_check5
          logs_check6 logs_check7 logs_check8 logs_check9 logs_check10)
       (simp add: logs_ret)
  then show ?thesis by (simp add: check_names_def)
qed

lemma rule60_Cons: "rule60 = CHR ''='' # replicate 59 CHR ''=''"
  by (simp add: rule60_def numeral_eq_Suc)

lemma logs_print_banner: "logs body_event print_banner []"
  unfolding print_banner_def
  by (intro logs_seq_quiet logs_banner logs_print)
     (simp_all add: rule60_Cons test_tube_def body_event_def summary_header_def bar_chart_def)

lemma logs_try_body: "logs body_event (try_body ops) check_names"
  unfolding try_body_def by (intro logs_seq_quiet logs_print_banner logs_check_steps)

lemma logs_acquire: "logs body_event (acquire ops) []"
  unfolding acquire_def
  by (intro logs_seq_quiet logs_modify logs_call [OF admits_body]) (simp_all add: body_event_Call)

lemma print_all_eq: "print_all ls s = (Inr (), s\<lparr>trace := trace s @ map Print ls\<rparr>)"
  by (induction ls arbitrary: s) (simp_all add: ret_def seq_def bnd_def print_def modify_def emit_def)

lemma print_summary_eq:
  "print_summary s = (Inr (), s\<lparr>trace := trace s @ map Print (summary_lines (results s))\<rparr>)"
  by (simp add: print_summary_def summary_lines_def summary_header_def seq_def bnd_def print_def
      modify_def emit_def ret_def print_all_eq)

lemma exit_on_results_eq:
  "exit_on_results s =
     (Exit (if failed (results s) = [] then 0 else 1), emit (Print (exit_line (results s))) s)"
  by (simp add: exit_on_results_def exit_line_def)

lemma except_clause_eq:
  "except_clause r s = s\<lparr>trace := trace s @ handler_events r\<rparr>"
  by (cases r) (simp_all add: except_clause_def handler_events_def error_line_def report_error_def
      seq_def bnd_def print_def modify_def emit_def)

lemma call_shape:
  assumes "admits A" "call c f s = (r, s')"
  shows "\<exists>d. trace s' = trace s @ Call c # d \<and> list_all A d \<and> logged d = []
           \<and> results s' = results s"
proof -
  obtain evs r0 w' where f: "f (world s) = ((evs, r0), w')" by (metis surj_pair)
  from fold_dispatch_trace [OF assms(1), of evs "emit (Call c) (s\<lparr>world := w'\<rparr>)"]
  obtain d where d: "trace (fold dispatch evs (emit (Call c) (s\<lparr>world := w'\<rparr>)))
       = trace (emit (Call c) (s\<lparr>world := w'\<rparr>)) @ d" "list_all A d" "logged d = []"
     "results (fold dispatch evs (emit (Call c) (s\<lparr>world := w'\<rparr>))) = results (emit (Call c) (s\<lparr>world := w'\<rparr>))"
    by blast
  from assms(2) f have s': "s' = fold dispatch evs (emit (Call c) (s\<lparr>world := w'\<rparr>))"
    by (simp add: call_def)
  show ?thesis using d s' by (intro exI [of _ d]) (simp add: emit_def)
qed

lemma finally_clause_shape:
  "\<exists>d. list_all body_event d \<and> logged d = []
      \<and> results (snd (finally_clause ops s)) = results s
      \<and> ((fst (finally_clause ops s) = Exit (if failed (results s) = [] then 0 else 1)
            \<and> trace (snd (finally_clause ops s))
                = trace s @ Call Close # d @ map Print (summary_lines (results s))
                    @ [Print (exit_line (results s))])
          \<or> ((\<exists>e. fst (finally_clause ops s) = Uncaught e)
            \<and> trace (snd (finally_clause ops s)) = trace s @ Call Close # d))"
proof -
  obtain r s1 where c: "call Close (close_r ops) s = (r, s1)" by (cases "call Close (close_r ops) s")
  from call_shape [OF admits_body c] obtain d where d:
    "trace s1 = trace s @ Call Close # d" "list_all body_event d" "logged d = []"
    "results s1 = results s" by blast
  show ?thesis
  proof (cases r)
    case (Inl e)
    with c d show ?thesis
      by (intro exI [of _ d]) (simp add: finally_clause_def)
  next
    case (Inr u)
    with c d show ?thesis
      by (intro exI [of _ d]) (simp add: finally_clause_def print_summary_eq exit_on_results_eq emit_def)
  qed
qed

lemma acquired_run:
  assumes "fst (session ops w) = Inr ()"
  shows "test_organization_flows ops w =
     (case finally_clause ops (except_clause (fst (body_run ops w)) (snd (body_run ops w))) of
        (oc, s2) \<Rightarrow> (oc, emit (Call Stop) s2))"
  using assms
  by (auto simp: test_organization_flows_def session_def body_run_def try_statement_def seq_def bnd_def
      split: prod.splits sum.splits)

lemma acquired_shape:
  assumes "fst (session ops w) = Inr ()"
  shows "\<exists>d. list_all body_event d \<and> logged d = []
      \<and> results (final ops w) = results (snd (body_run ops w))
      \<and> ((outcome_of ops w = Exit (if failed (results (snd (body_run ops w))) = [] then 0 else 1)
            \<and> trace (final ops w)
                = trace (snd (body_run ops w)) @ handler_events (fst (body_run ops w))
                    @ Call Close # d @ map Print (summary_lines (results (snd (body_run ops w))))
                    @ [Print (exit_line (results (snd (body_run ops w)))), Call Stop])
          \<or> ((\<exists>e. outcome_of ops w = Uncaught e)
            \<and> trace (final ops w)
                = trace (snd (body_run ops w)) @ handler_events (fst (body_run ops w))
                    @ Call Close # d @ [Call Stop]))"
proof -
  let ?s = "except_clause (fst (body_run ops w)) (snd (body_run ops w))"
  from finally_clause_shape [of ops ?s] obtain d where d: "list_all body_event d" "logged d = []"
      "results (snd (finally_clause ops ?s)) = results ?s"
      "(fst (finally_clause ops ?s) = Exit (if failed (results ?s) = [] then 0 else 1)
            \<and> trace (snd (finally_clause ops ?s))
                = trace ?s @ Call Close # d @ map Print (summary_lines (results ?s))
                    @ [Print (exit_line (results ?s))])
          \<or> ((\<exists>e. fst (finally_clause ops ?s) = Uncaught e)
            \<and> trace (snd (finally_clause ops ?s)) = trace ?s @ Call Close # d)"
    by blast
  from d show ?thesis
    by (intro exI [of _ d])
       (auto simp: acquired_run [OF assms] final_def outcome_of_def except_clause_eq emit_def
          split: prod.splits)
qed

lemma total_record_all: "total_r (record_all rs xs) = total_r rs + int (length xs)"
  by (induction xs rule: rev_induct) (simp_all add: record_test_def Let_def)

lemma passed_record_all: "passed (record_all rs xs) = passed rs @ map fst (filter snd xs)"
  by (induction xs rule: rev_induct) (auto simp: record_test_def Let_def)

lemma failed_record_all:
  "failed (record_all rs xs) = failed rs @ map fst (filter (\<lambda>x. \<not> snd x) xs)"
  by (induction xs rule: rev_induct) (auto simp: record_test_def Let_def)

lemma consistent_record_test: "consistent rs \<Longrightarrow> consistent (record_test n ok rs)"
  by (simp add: consistent_def record_test_def Let_def)

lemma consistent_record_all: "consistent rs \<Longrightarrow> consistent (record_all rs xs)"
  by (induction xs rule: rev_induct) (simp_all add: consistent_record_test)

lemma logs_consistent:
  assumes "logs A m ns" "consistent (results s)"
  shows "consistent (results (snd (m s)))"
proof -
  obtain r s' where run: "m s = (r, s')" by (cases "m s")
  from logsD [OF assms(1) run] obtain d where "results s' = record_all (results s) (logged d)"
    by blast
  with assms(2) run show ?thesis by (simp add: consistent_record_all)
qed

lemma logs_steps:
  assumes "\<And>c. c \<in> set cs \<Longrightarrow> \<exists>ns. logs A c ns"
  shows "\<exists>ns. logs A (run_steps cs) ns"
  using assms
proof (induction cs)
  case Nil
  show ?case using logs_ret [of A "()"] by auto
next
  case (Cons c cs)
  then obtain ns ms where "logs A c ns" "logs A (run_steps cs) ms" by (meson list.set_intros)
  then have "logs A (run_steps (c # cs)) (ns @ ms)" by (rule logs_run_steps)
  then show ?case by blast
qed

lemma logs_each_step:
  assumes "c \<in> set (check_steps ops)"
  shows "\<exists>ns. logs body_event c ns"
proof -
  from assms consider "c = check1 ops" | "c = check2 ops" | "c = check3 ops" | "c = check4 ops"
    | "c = check5 ops" | "c = check6 ops" | "c = check7 ops" | "c = check8 ops"
    | "c = check9 ops" | "c = check10 ops"
    by (auto simp: check_steps_def)
  then show ?thesis
  proof cases
    case 1 then show ?thesis using logs_check1 by blast
  next
    case 2 then show ?thesis using logs_check2 by blast
  next
    case 3 then show ?thesis using logs_check3 by blast
  next
    case 4 then show ?thesis using logs_check4 by blast
  next
    case 5 then show ?thesis using logs_check5 by blast
  next
    case 6 then show ?thesis using logs_check6 by blast
  next
    case 7 then show ?thesis using logs_check7 by blast
  next
    case 8 then show ?thesis using logs_check8 by blast
  next
    case 9 then show ?thesis using logs_check9 by blast
  next
    case 10 then show ?thesis using logs_check10 by blast
  qed
qed

lemma logs_prefix_steps: "\<exists>ns. logs body_event (run_steps (take k (check_steps ops))) ns"
  by (rule logs_steps) (meson in_set_takeD logs_each_step)

lemma logs_session:
  "logs body_event (seq (call SyncPlaywright (sync_playwright_r ops)) (acquire ops)) []"
  by (intro logs_seq_quiet logs_acquire logs_call [OF admits_body]) (simp add: body_event_Call)

lemma logged_names_Nil: "names d = [] \<Longrightarrow> logged d = []"
  by (simp add: names_def)

lemma session_shape:
  "list_all body_event (trace (snd (session ops w)))
     \<and> logged (trace (snd (session ops w))) = []
     \<and> results (snd (session ops w)) = no_results"
proof -
  obtain r s1 where run: "session ops w = (r, s1)" by (cases "session ops w")
  from logsD [OF logs_session, of ops "initial w" r s1] run obtain d where
    d: "trace s1 = trace (initial w) @ d" "list_all body_event d"
       "results s1 = record_all (results (initial w)) (logged d)"
       "case r of Inr _ \<Rightarrow> names d = [] | Inl _ \<Rightarrow> \<exists>k. names d = take k []"
    by (auto simp: session_def)
  from d(4) have "names d = []" by (cases r) auto
  then have "logged d = []" by (rule logged_names_Nil)
  with d run show ?thesis by (simp add: initial_def no_results_def)
qed

lemma body_shape:
  "\<exists>d. trace (snd (body_run ops w)) = trace (snd (session ops w)) @ d
      \<and> list_all body_event d
      \<and> results (snd (body_run ops w)) = record_all no_results (logged d)
      \<and> (case fst (body_run ops w) of Inr _ \<Rightarrow> names d = check_names
          | Inl _ \<Rightarrow> \<exists>k. names d = take k check_names)"
proof -
  obtain r s1 where run: "try_body ops (snd (session ops w)) = (r, s1)"
    by (cases "try_body ops (snd (session ops w))")
  from logsD [OF logs_try_body run] obtain d where
    "trace s1 = trace (snd (session ops w)) @ d" "list_all body_event d"
    "results s1 = record_all (results (snd (session ops w))) (logged d)"
    "case r of Inr _ \<Rightarrow> names d = check_names | Inl _ \<Rightarrow> \<exists>k. names d = take k check_names"
    by blast
  with run show ?thesis
    using session_shape [of ops w] by (intro exI [of _ d]) (simp add: body_run_def)
qed

lemma not_acquired_shape:
  assumes "fst (session ops w) = Inl e"
  shows "outcome_of ops w = Uncaught e \<and> results (final ops w) = no_results
     \<and> (trace (final ops w) = trace (snd (session ops w))
        \<or> trace (final ops w) = trace (snd (session ops w)) @ [Call Stop])"
  using assms session_shape [of ops w]
  by (auto simp: test_organization_flows_def session_def outcome_of_def final_def seq_def bnd_def
      emit_def split: prod.splits sum.splits)

lemma logged_items: "logged (map (Print \<circ> (@) ''   - '') xs) = []"
  by (induction xs) (simp_all add: logged_Cons)

lemma parse_check_passed_count:
  "c \<noteq> CHR ''A'' \<Longrightarrow> parse_check (Print (check_mark @ CHR '' '' # CHR ''P'' # c # x)) = None"
  by (simp add: parse_check_def pass_prefix_def fail_prefix_def check_mark_def cross_mark_def)

lemma parse_check_failed_count:
  "c \<noteq> CHR ''A'' \<Longrightarrow> parse_check (Print (cross_mark @ CHR '' '' # CHR ''F'' # c # x)) = None"
  by (simp add: parse_check_def pass_prefix_def fail_prefix_def check_mark_def cross_mark_def)

lemma logged_summary: "logged (map Print (summary_lines rs)) = []"
  by (simp add: summary_lines_def logged_Cons logged_items rule60_Cons summary_header_def
      bar_chart_def parse_check_passed_count parse_check_failed_count)

lemma parse_check_exit_line [simp]: "parse_check (Print (exit_line rs)) = None"
  by (simp add: exit_line_def)

lemma logged_handler: "logged (handler_events r) = []"
  by (cases r) (simp_all add: handler_events_def error_line_def logged_Cons)

lemma final_logged:
  "results (final ops w) = record_all no_results (logged (trace (final ops w)))
     \<and> (\<exists>k. names (trace (final ops w)) = take k check_names)
     \<and> (fst (session ops w) = Inr () \<and> fst (body_run ops w) = Inr ()
          \<longrightarrow> names (trace (final ops w)) = check_names)"
proof (cases "fst (session ops w)")
  case (Inl e)
  from not_acquired_shape [OF Inl] session_shape [of ops w]
  have "logged (trace (final ops w)) = []" "results (final ops w) = no_results"
    by (auto simp: logged_Cons)
  moreover have "\<exists>k. [] = take k check_names" by (intro exI [of _ 0]) simp
  ultimately show ?thesis using Inl by (simp add: names_def)
next
  case (Inr u)
  then have acq: "fst (session ops w) = Inr ()" by simp
  from body_shape [of ops w] obtain d where d:
    "trace (snd (body_run ops w)) = trace (snd (session ops w)) @ d"
    "results (snd (body_run ops w)) = record_all no_results (logged d)"
    "case fst (body_run ops w) of Inr _ \<Rightarrow> names d = check_names
          | Inl _ \<Rightarrow> \<exists>k. names d = take k check_names"
    by blast
  from acquired_shape [OF acq] obtain dc where dc: "logged dc = []"
    "results (final ops w) = results (snd (body_run ops w))"
    "trace (final ops w)
        = trace (snd (body_run ops w)) @ handler_events (fst (body_run ops w))
            @ Call Close # dc @ map Print (summary_lines (results (snd (body_run ops w))))
            @ [Print (exit_line (results (snd (body_run ops w)))), Call Stop]
     \<or> trace (final ops w)
        = trace (snd (body_run ops w)) @ handler_events (fst (body_run ops w))
            @ Call Close # dc @ [Call Stop]"
    by blast
  from dc(3) have lg: "logged (trace (final ops w)) = logged d"
    using d(1) dc(1) session_shape [of ops w]
    by (auto simp: logged_Cons logged_handler logged_summary)
  then have nm: "names (trace (final ops w)) = names d" by (simp add: names_def)
  have "\<exists>k. names d = take k check_names"
  proof (cases "fst (body_run ops w)")
    case (Inl e)
    with d(3) show ?thesis by simp
  next
    case (Inr v)
    with d(3) have "names d = take (length check_names) check_names" by simp
    then show ?thesis by blast
  qed
  moreover have "fst (body_run ops w) = Inr () \<longrightarrow> names d = check_names"
    using d(3) by auto
  ultimately show ?thesis using lg nm d(2) dc(2) by simp
qed

lemma transcript_iff: "l \<in> set (transcript s) \<longleftrightarrow> Print l \<in> set (trace s)"
proof -
  have "l \<in> set [l. Print l \<leftarrow> evs] \<longleftrightarrow> Print l \<in> set evs" for evs
    by (induction evs) (auto split: event.splits)
  then show ?thesis by (simp add: transcript_def)
qed

lemma body_event_no_header: "list_all body_event evs \<Longrightarrow> Print summary_header \<notin> set evs"
  by (auto simp: list_all_iff body_event_def)


lemma handler_no_header: "Print summary_header \<notin> set (handler_events r)"
  by (cases r)
     (simp_all add: handler_events_def error_line_def summary_header_def newline_def bar_chart_def)



lemma header_in_summary: "summary_header \<in> set (summary_lines rs)"
  by (simp add: summary_lines_def)

lemma exit_shape:
  assumes "fst (session ops w) = Inr ()" "outcome_of ops w = Exit code"
  shows "code = (if failed (results (final ops w)) = [] then 0 else 1)
     \<and> results (final ops w) = results (snd (body_run ops w))
     \<and> (\<exists>d. list_all body_event d \<and> trace (final ops w)
                = trace (snd (body_run ops w)) @ handler_events (fst (body_run ops w))
                    @ Call Close # d @ map Print (summary_lines (results (final ops w)))
                    @ [Print (exit_line (results (final ops w))), Call Stop])"
  using acquired_shape [OF assms(1)] assms(2) by auto

lemma summary_printed:
  assumes "fst (session ops w) = Inr ()" "outcome_of ops w = Exit code"
    and "l \<in> set (summary_lines (results (final ops w)))"
  shows "l \<in> set (transcript (final ops w))"
  using exit_shape [OF assms(1,2)] assms(3) by (auto simp: transcript_iff)

lemma header_means_exit:
  assumes "summary_header \<in> set (transcript (final ops w))"
  shows "fst (session ops w) = Inr () \<and> (\<exists>code. outcome_of ops w = Exit code)"
proof (cases "fst (session ops w)")
  case (Inl e)
  from not_acquired_shape [OF Inl] session_shape [of ops w]
  have "Print summary_header \<notin> set (trace (final ops w))"
    by (auto dest: body_event_no_header)
  with assms show ?thesis by (simp add: transcript_iff)
next
  case (Inr u)
  then have acq: "fst (session ops w) = Inr ()" by simp
  from body_shape [of ops w] session_shape [of ops w]
  have body: "Print summary_header \<notin> set (trace (snd (body_run ops w)))"
    by (auto dest: body_event_no_header)
  have "\<exists>code. outcome_of ops w = Exit code"
  proof (rule ccontr)
    assume no: "\<nexists>code. outcome_of ops w = Exit code"
    with acquired_shape [OF acq] obtain d where "list_all body_event d"
      "trace (final ops w)
         = trace (snd (body_run ops w)) @ handler_events (fst (body_run ops w))
             @ Call Close # d @ [Call Stop]"
      by auto
    with body have "Print summary_header \<notin> set (trace (final ops w))"
      using handler_no_header by (auto dest: body_event_no_header)
    with assms show False by (simp add: transcript_iff)
  qed
  with acq show ?thesis by simp
qed

lemma show_nat_0: "show_nat 0 = ''0''"
  by (simp add: show_nat.simps digit_def char_of_def bit_Suc_0_iff)


lemma show_nat_11: "show_nat 11 = ''11''"
  by (simp add: show_nat.simps digit_def char_of_def bit_Suc_0_iff)

subsection \<open>Evaluating a run on a sample application\<close>

lemmas run_defs =
  test_organization_flows_def try_statement_def finally_clause_def except_clause_def
  exit_on_results_def print_summary_def report_error_def try_body_def print_banner_def acquire_def initial_def
  session_def body_run_def outcome_of_def final_def check_steps_def error_line_def
  check1_def check2_def check3_def check4_def check5_def check6_def check7_def check8_def
  check9_def check10_def protected_routes_def is_protected_def test_pages_def
  log_test_def record_test_def goto_def screenshot_def title_def url_def content_def
  wait_for_timeout_def get_def count_gt0_def url_has_def path_exists_def call_def
  print_def modify_def emit_def seq_def bnd_def ret_def or_else_def and_also_def
  lower_def lower_char_def show_bool_def char_of_def bit_Suc_0_iff

lemmas sample_defs =
  well_guarded_def one_route_open_def no_browser_def api_down_def server_down_def
  landing_def blank_def

lemma close_returns_exit:
  assumes "fst (session ops w) = Inr ()"
    and "\<And>s. fst (call Close (close_r ops) s) = Inr ()"
  shows "outcome_of ops w = Exit (if failed (results (snd (body_run ops w))) = [] then 0 else 1)"
proof -
  let ?s = "except_clause (fst (body_run ops w)) (snd (body_run ops w))"
  obtain s1 where c: "call Close (close_r ops) ?s = (Inr (), s1)"
    using assms(2) [of ?s] by (cases "call Close (close_r ops) ?s") auto
  from call_shape [OF admits_body c] have "results s1 = results ?s" by blast
  then have "results s1 = results (snd (body_run ops w))" by (simp add: except_clause_eq)
  with c show ?thesis
    by (simp add: acquired_run [OF assms(1)] outcome_of_def finally_clause_def print_summary_eq
        exit_on_results_eq split: prod.splits)
qed

lemma sample_close:
  "fst (call Close (close_r well_guarded) s) = Inr ()"
  "fst (call Close (close_r one_route_open) s) = Inr ()"
  "fst (call Close (close_r api_down) s) = Inr ()"
  "fst (call Close (close_r server_down) s) = Inr ()"
  by (simp_all add: call_def sample_defs)

lemma sample_session:
  "fst (session well_guarded blank) = Inr ()"
  "fst (session one_route_open blank) = Inr ()"
  "fst (session api_down blank) = Inr ()"
  "fst (session server_down blank) = Inr ()"
  by (simp_all add: run_defs sample_defs)

lemma well_guarded_body:
  "fst (body_run well_guarded blank) = Inr ()"
  "results (snd (body_run well_guarded blank))
     = \<lparr>passed = check_names, failed = [], total_r = 11\<rparr>"
  by (simp_all add: run_defs sample_defs check_names_def)

lemma one_route_open_body:
  "fst (body_run one_route_open blank) = Inr ()"
  "failed (results (snd (body_run one_route_open blank)))
     = [''Middleware protects all dashboard routes'']"
  by (simp_all add: run_defs sample_defs)

lemma show_nat_100: "show_nat 100 = ''100''"
  by (simp add: show_nat.simps digit_def char_of_def bit_Suc_0_iff)

lemma no_raise_total:
  assumes "fst (session ops w) = Inr ()" and "fst (body_run ops w) = Inr ()"
  shows "total_r (results (final ops w)) = 11"
    and "length (passed (results (final ops w))) + length (failed (results (final ops w))) = 11"
    and "names (trace (final ops w)) = check_names"
proof -
  from final_logged [of ops w] assms
  have res: "results (final ops w) = record_all no_results (logged (trace (final ops w)))"
    and nm: "names (trace (final ops w)) = check_names" by simp_all
  from nm have "length (logged (trace (final ops w))) = length check_names"
    by (metis length_map names_def)
  then have len: "length (logged (trace (final ops w))) = 11" by (simp add: check_names_def)
  show tot: "total_r (results (final ops w)) = 11"
    by (subst res) (simp add: total_record_all len no_results_def)
  have "consistent (results (final ops w))"
    using res consistent_record_all [of no_results] by (simp add: consistent_def no_results_def)
  with tot show "length (passed (results (final ops w))) + length (failed (results (final ops w))) = 11"
    by (simp add: consistent_def)
  show "names (trace (final ops w)) = check_names" by (rule nm)
qed

lemma pass_rate_all: "total_r rs = 11 \<Longrightarrow> length (passed rs) = 11 \<Longrightarrow> pass_rate rs = ''100.0''"
  by (simp add: pass_rate_def format_1f_def Let_def show_nat_100 show_nat_0)

lemma pass_rate_none: "total_r rs = 0 \<Longrightarrow> pass_rate rs = ''0.0''"
  by (simp add: pass_rate_def)

lemma is_in_rule60:
  "c \<noteq> CHR ''='' \<Longrightarrow> is_in (c # p) (replicate n CHR ''='' @ s) = is_in (c # p) s"
  by (induction n) simp_all

lemma is_in_rule60': "c \<noteq> CHR ''='' \<Longrightarrow> \<not> is_in (c # p) (replicate n CHR ''='')"
  using is_in_rule60 [of c p n "[]"] by simp

lemma raise_shape:
  assumes "fst (session ops w) = Inr ()" and "fst (body_run ops w) = Inl e"
  shows "\<exists>rest. trace (final ops w)
            = trace (snd (body_run ops w)) @ [Print (error_line e), Traceback e, Call Close] @ rest
          \<and> names rest = []"
    and "results (final ops w) = results (snd (body_run ops w))"
proof -
  from acquired_shape [OF assms(1)] obtain d where d: "logged d = []"
    "results (final ops w) = results (snd (body_run ops w))"
    "trace (final ops w)
        = trace (snd (body_run ops w)) @ handler_events (fst (body_run ops w))
            @ Call Close # d @ map Print (summary_lines (results (snd (body_run ops w))))
            @ [Print (exit_line (results (snd (body_run ops w)))), Call Stop]
     \<or> trace (final ops w)
        = trace (snd (body_run ops w)) @ handler_events (fst (body_run ops w))
            @ Call Close # d @ [Call Stop]"
    by blast
  show "results (final ops w) = results (snd (body_run ops w))" by (rule d(2))
  from d(3) show "\<exists>rest. trace (final ops w)
            = trace (snd (body_run ops w)) @ [Print (error_line e), Traceback e, Call Close] @ rest
          \<and> names rest = []"
  proof
    assume "trace (final ops w)
        = trace (snd (body_run ops w)) @ handler_events (fst (body_run ops w))
            @ Call Close # d @ map Print (summary_lines (results (snd (body_run ops w))))
            @ [Print (exit_line (results (snd (body_run ops w)))), Call Stop]"
    then show ?thesis using d(1) assms(2)
      by (intro exI [of _ "d @ map Print (summary_lines (results (snd (body_run ops w))))
            @ [Print (exit_line (results (snd (body_run ops w)))), Call Stop]"])
         (simp add: handler_events_def error_line_def names_def logged_summary logged_Cons)
  next
    assume "trace (final ops w)
        = trace (snd (body_run ops w)) @ handler_events (fst (body_run ops w))
            @ Call Close # d @ [Call Stop]"
    then show ?thesis using d(1) assms(2)
      by (intro exI [of _ "d @ [Call Stop]"])
         (simp add: handler_events_def error_line_def names_def logged_Cons)
  qed
qed

lemma run_steps_raise:
  assumes "k < length cs" and "fst (run_steps (take k cs) s) = Inr ()"
    and "fst ((cs ! k) (snd (run_steps (take k cs) s))) = Inl e"
  shows "run_steps cs s = (cs ! k) (snd (run_steps (take k cs) s))"
  using assms
proof (induction cs arbitrary: k s)
  case Nil
  then show ?case by simp
next
  case (Cons c cs)
  show ?case
  proof (cases k)
    case 0
    with Cons.prems(3) have "fst (c s) = Inl e" by (simp add: ret_def)
    then obtain s' where "c s = (Inl e, s')" by (cases "c s") auto
    with 0 show ?thesis by (simp add: seq_def bnd_def ret_def)
  next
    case (Suc j)
    obtain r s1 where c: "c s = (r, s1)" by (cases "c s")
    with Cons.prems(2) Suc have r: "r = Inr ()"
      by (cases r) (simp_all add: seq_def bnd_def)
    with c Cons.prems Suc have "j < length cs" "fst (run_steps (take j cs) s1) = Inr ()"
      "fst ((cs ! j) (snd (run_steps (take j cs) s1))) = Inl e"
      by (simp_all add: seq_def bnd_def)
    from Cons.IH [OF this] c r Suc show ?thesis by (simp add: seq_def bnd_def)
  qed
qed

lemma print_banner_returns: "fst (print_banner s) = Inr ()"
  by (simp add: print_banner_def seq_def bnd_def print_def modify_def)

lemma body_run_raise:
  assumes "k < length (check_steps ops)" and "fst (steps_before ops w k) = Inr ()"
    and "fst ((check_steps ops ! k) (snd (steps_before ops w k))) = Inl e"
  shows "body_run ops w = (check_steps ops ! k) (snd (steps_before ops w k))"
proof -
  let ?s = "snd (print_banner (snd (session ops w)))"
  have "body_run ops w = run_steps (check_steps ops) ?s"
    using print_banner_returns [of "snd (session ops w)"]
    by (cases "print_banner (snd (session ops w))")
       (simp add: body_run_def try_body_def seq_def bnd_def)
  also have "\<dots> = (check_steps ops ! k) (snd (run_steps (take k (check_steps ops)) ?s))"
    using assms unfolding steps_before_def by (rule run_steps_raise)
  finally show ?thesis by (simp add: steps_before_def)
qed

lemma api_down_body:
  "fst (steps_before api_down blank 4) = Inr ()"
  "fst ((check_steps api_down ! 4) (snd (steps_before api_down blank 4)))
     = Inl ''APIRequestContext.get: Timeout 30000ms exceeded''"
  "fst (body_run api_down blank) = Inl ''APIRequestContext.get: Timeout 30000ms exceeded''"
  "results (snd (body_run api_down blank))
     = \<lparr>passed = take 4 check_names, failed = [], total_r = 4\<rparr>"
  by (simp_all add: steps_before_def run_defs sample_defs check_names_def)

lemma server_down_body:
  "fst (body_run server_down blank) = Inl ''Page.goto: net::ERR_CONNECTION_REFUSED''"
  "results (snd (body_run server_down blank)) = no_results"
  by (simp_all add: run_defs sample_defs no_results_def)

lemma no_browser_run:
  "fst (session no_browser blank) = Inl ''BrowserType.launch: Executable does not exist''"
  "trace (final no_browser blank) = [Call SyncPlaywright, Call Launch, Call Stop]"
  by (simp_all add: run_defs sample_defs)

lemma body_event_not_close: "list_all body_event evs \<Longrightarrow> Call Close \<notin> set evs"
  by (induction evs) (auto simp: body_event_def)




subsection \<open>Rules for two worlds\<close>






































lemma alike_initial: "R v w \<Longrightarrow> alike R (initial v) (initial w)"
  by (simp add: alike_def initial_def)






section \<open>Properties\<close>

subsection \<open>The counter and the two lists\<close>

text \<open>
  C3. The results satisfy \<open>total = len(passed) + len(failed)\<close> when the run starts,
  after every call of \<^verbatim>\<open>log_test\<close> made in a state that satisfies it, after any
  number of check steps (whether the last of them returned or raised), and in the state
  in which the run ends, which is the state the summary is printed from.
\<close>

theorem results_total_invariant:
  "consistent (results (initial w))
   \<and> (consistent (results s) \<longrightarrow> consistent (results (snd (log_test name ok details s))))
   \<and> (consistent (results s) \<longrightarrow>
        consistent (results (snd (run_steps (take k (check_steps ops)) s))))
   \<and> consistent (results (final ops w))"
proof -
  have "consistent (results (initial w))"
    by (simp add: consistent_def initial_def)
  moreover have "consistent (results s) \<longrightarrow> consistent (results (snd (log_test name ok details s)))"
    using logs_consistent [OF logs_log_test_body] by blast
  moreover have "consistent (results s) \<longrightarrow>
        consistent (results (snd (run_steps (take k (check_steps ops)) s)))"
    using logs_prefix_steps [of k ops] logs_consistent by blast
  moreover have "consistent (results (final ops w))"
  proof -
    have "consistent no_results" by (simp add: consistent_def no_results_def)
    then show ?thesis using final_logged [of ops w] by (simp add: consistent_record_all)
  qed
  ultimately show ?thesis by blast
qed

theorem results_total_invariant_witness:
  "consistent (results (initial blank))
   \<and> consistent (results (snd (log_test ''Home page loads successfully'' False ''Title: ''
         (initial blank))))
   \<and> consistent (results (snd (run_steps (take 5 (check_steps one_route_open)) (initial blank))))
   \<and> consistent (results (final one_route_open blank))"
proof -
  have start: "consistent (results (initial blank))"
    by (simp add: consistent_def initial_def)
  from results_total_invariant
         [of blank "initial blank" "''Home page loads successfully''" False "''Title: ''" 5
            one_route_open]
  show ?thesis using start by blast
qed

subsection \<open>The exit status\<close>

text \<open>
  C2. A run reaches the summary when the header of the summary is in its transcript.
  Every such run leaves through \<^verbatim>\<open>sys.exit\<close>, with status 0 when the list
  \<^verbatim>\<open>failed\<close> is empty and with status 1 otherwise.
\<close>

theorem exit_status_iff_no_failures:
  assumes "summary_header \<in> set (transcript (final ops w))"
  shows "outcome_of ops w = Exit (if failed (results (final ops w)) = [] then 0 else 1)
     \<and> (exit_status (outcome_of ops w) = 0 \<longleftrightarrow> failed (results (final ops w)) = [])
     \<and> (exit_status (outcome_of ops w) = 1 \<longleftrightarrow> failed (results (final ops w)) \<noteq> [])"
proof -
  from header_means_exit [OF assms] obtain code where
    acq: "fst (session ops w) = Inr ()" and ex: "outcome_of ops w = Exit code" by blast
  from exit_shape [OF acq ex] ex show ?thesis by (simp add: exit_status_def)
qed

subsection \<open>Closing the browser\<close>


subsection \<open>The order of the checks\<close>

text \<open>
  C8. In every run the names on the check lines of the transcript, read in order, are an
  initial part of the names in the order of the source, whatever the verdicts of the
  checks; when no step raised they are all of them. The lists \<^verbatim>\<open>passed\<close> and
  \<^verbatim>\<open>failed\<close> hold the names of the passing and of the failing lines in the same
  order.
\<close>

theorem checks_logged_in_declared_order:
  "(\<exists>k. names (trace (final ops w)) = take k check_names)
   \<and> (fst (session ops w) = Inr () \<and> fst (body_run ops w) = Inr ()
        \<longrightarrow> names (trace (final ops w)) = check_names)
   \<and> passed (results (final ops w)) = map fst (filter snd (logged (trace (final ops w))))
   \<and> failed (results (final ops w))
        = map fst (filter (\<lambda>c. \<not> snd c) (logged (trace (final ops w))))"
  using final_logged [of ops w]
  by (simp add: passed_record_all failed_record_all no_results_def)

subsection \<open>Eleven checks\<close>

text \<open>
  C9. When the session is acquired and no step raises, eleven checks are recorded: the
  names logged are the eleven names of the source, two of them for the fifth step, the
  counter is 11, and if the run gets as far as the summary, the summary says so.
\<close>

theorem eleven_checks_recorded:
  assumes "fst (session ops w) = Inr ()" and "fst (body_run ops w) = Inr ()"
  shows "total_r (results (final ops w)) = 11
     \<and> length (passed (results (final ops w))) + length (failed (results (final ops w))) = 11
     \<and> names (trace (final ops w)) = check_names
     \<and> (\<forall>code. outcome_of ops w = Exit code
           \<longrightarrow> ''Total Tests: 11'' \<in> set (transcript (final ops w)))"
proof -
  have line: "''Total Tests: 11'' \<in> set (transcript (final ops w))"
    if "outcome_of ops w = Exit code" for code
  proof (rule summary_printed [OF assms(1) that])
    show "''Total Tests: 11'' \<in> set (summary_lines (results (final ops w)))"
      using no_raise_total(1) [OF assms]
      by (simp add: summary_lines_def show_int_def show_nat_11)
  qed
  with no_raise_total [OF assms] show ?thesis by blast
qed

subsection \<open>A run in which every check passes\<close>

text \<open>
  C5, as the source has it. When the session is acquired, no step raises, no check fails
  and the run leaves through \<^verbatim>\<open>sys.exit\<close>, the summary counts eleven tests,
  eleven passed and none failed, the pass rate is 100.0%, and the status is 0.
\<close>

theorem all_checks_pass:
  assumes "fst (session ops w) = Inr ()" and "fst (body_run ops w) = Inr ()"
    and "failed (results (final ops w)) = []" and "outcome_of ops w = Exit code"
  shows "code = 0
     \<and> ''Total Tests: 11'' \<in> set (transcript (final ops w))
     \<and> check_mark @ '' Passed: 11'' \<in> set (transcript (final ops w))
     \<and> cross_mark @ '' Failed: 0'' \<in> set (transcript (final ops w))
     \<and> newline @ chart_up @ '' Pass Rate: 100.0%'' \<in> set (transcript (final ops w))"
proof -
  from no_raise_total(1,2) [OF assms(1,2)] assms(3)
  have tot: "total_r (results (final ops w)) = 11"
    and len: "length (passed (results (final ops w))) = 11" by simp_all
  have rate: "pass_rate (results (final ops w)) = ''100.0''"
    by (rule pass_rate_all [OF tot len])
  have "l \<in> set (transcript (final ops w))"
    if "l \<in> set (summary_lines (results (final ops w)))" for l
    by (rule summary_printed [OF assms(1,4) that])
  moreover have "''Total Tests: 11'' \<in> set (summary_lines (results (final ops w)))"
    using tot by (simp add: summary_lines_def show_int_def show_nat_11)
  moreover have "check_mark @ '' Passed: 11'' \<in> set (summary_lines (results (final ops w)))"
    using len by (simp add: summary_lines_def show_nat_11)
  moreover have "cross_mark @ '' Failed: 0'' \<in> set (summary_lines (results (final ops w)))"
    using assms(3) by (simp add: summary_lines_def show_nat_0)
  moreover have "newline @ chart_up @ '' Pass Rate: 100.0%''
      \<in> set (summary_lines (results (final ops w)))"
    using rate by (simp add: summary_lines_def)
  moreover have "code = 0"
    using exit_shape [OF assms(1,4)] assms(3) by simp
  ultimately show ?thesis by blast
qed

subsection \<open>An exception in a check step\<close>

text \<open>
  C1, as the source has it. The steps have no handler of their own: the one
  \<^verbatim>\<open>try\<close> statement encloses them all. When the session is acquired, the steps
  before step \<open>k + 1\<close> return and step \<open>k + 1\<close> raises \<open>e\<close>, the body of the
  \<^verbatim>\<open>try\<close> ends there, with that exception and in the state in which it was
  raised, so that no later step runs. The run goes on with the line of the handler, which
  carries the message, the stack trace and \<^verbatim>\<open>browser.close()\<close>; no check line
  follows, and the results stay as they were when the exception was raised.
\<close>

theorem step_error_aborts_steps:
  assumes "fst (session ops w) = Inr ()" and "k < length (check_steps ops)"
    and "fst (steps_before ops w k) = Inr ()"
    and "fst ((check_steps ops ! k) (snd (steps_before ops w k))) = Inl e"
  shows "body_run ops w = (check_steps ops ! k) (snd (steps_before ops w k))
     \<and> (\<exists>rest. trace (final ops w)
            = trace (snd (body_run ops w)) @ [Print (error_line e), Traceback e, Call Close] @ rest
          \<and> names rest = [])
     \<and> results (final ops w) = results (snd ((check_steps ops ! k) (snd (steps_before ops w k))))"
proof -
  have body: "body_run ops w = (check_steps ops ! k) (snd (steps_before ops w k))"
    by (rule body_run_raise [OF assms(2-4)])
  with assms(4) have "fst (body_run ops w) = Inl e" by simp
  from raise_shape [OF assms(1) this] body show ?thesis by simp
qed

subsection \<open>An exception outside the check steps\<close>

text \<open>
  C4, as the source has it. When the session is acquired and the body of the
  \<^verbatim>\<open>try\<close> raises \<open>e\<close>, the handler prints the message and the stack trace,
  \<^verbatim>\<open>browser.close()\<close> is called next, the results are those accumulated when
  the exception was raised, and a run that then leaves through \<^verbatim>\<open>sys.exit\<close>
  has printed their summary: the total, the two counts and the pass rate, which is 0.0%
  when the total is 0. When the acquisition itself raises \<open>e\<close>, the exception leaves the
  function: nothing is recorded, no summary is printed, \<^verbatim>\<open>browser.close()\<close> is
  not called, and the process ends with status 1.
\<close>

theorem error_outside_steps:
  "(fst (session ops w) = Inr () \<and> fst (body_run ops w) = Inl e \<longrightarrow>
      (\<exists>rest. trace (final ops w)
          = trace (snd (body_run ops w)) @ [Print (error_line e), Traceback e, Call Close] @ rest)
      \<and> results (final ops w) = results (snd (body_run ops w))
      \<and> (\<forall>code. outcome_of ops w = Exit code \<longrightarrow>
            ''Total Tests: '' @ show_int (total_r (results (snd (body_run ops w))))
              \<in> set (transcript (final ops w))
          \<and> check_mark @ '' Passed: '' @ show_nat (length (passed (results (snd (body_run ops w)))))
              \<in> set (transcript (final ops w))
          \<and> cross_mark @ '' Failed: '' @ show_nat (length (failed (results (snd (body_run ops w)))))
              \<in> set (transcript (final ops w))
          \<and> newline @ chart_up @ '' Pass Rate: '' @ pass_rate (results (snd (body_run ops w))) @ ''%''
              \<in> set (transcript (final ops w))
          \<and> (total_r (results (snd (body_run ops w))) = 0 \<longrightarrow>
                newline @ chart_up @ '' Pass Rate: 0.0%'' \<in> set (transcript (final ops w)))))
   \<and> (fst (session ops w) = Inl e \<longrightarrow>
        outcome_of ops w = Uncaught e \<and> exit_status (outcome_of ops w) = 1
        \<and> results (final ops w) = no_results
        \<and> summary_header \<notin> set (transcript (final ops w))
        \<and> Call Close \<notin> set (trace (final ops w)))"
proof (intro conjI impI)
  assume a: "fst (session ops w) = Inr () \<and> fst (body_run ops w) = Inl e"
  then have acq: "fst (session ops w) = Inr ()" and raised: "fst (body_run ops w) = Inl e"
    by simp_all
  from raise_shape [OF acq raised]
  show "\<exists>rest. trace (final ops w)
          = trace (snd (body_run ops w)) @ [Print (error_line e), Traceback e, Call Close] @ rest"
    and res: "results (final ops w) = results (snd (body_run ops w))"
    by blast+
  show "\<forall>code. outcome_of ops w = Exit code \<longrightarrow>
            ''Total Tests: '' @ show_int (total_r (results (snd (body_run ops w))))
              \<in> set (transcript (final ops w))
          \<and> check_mark @ '' Passed: '' @ show_nat (length (passed (results (snd (body_run ops w)))))
              \<in> set (transcript (final ops w))
          \<and> cross_mark @ '' Failed: '' @ show_nat (length (failed (results (snd (body_run ops w)))))
              \<in> set (transcript (final ops w))
          \<and> newline @ chart_up @ '' Pass Rate: '' @ pass_rate (results (snd (body_run ops w))) @ ''%''
              \<in> set (transcript (final ops w))
          \<and> (total_r (results (snd (body_run ops w))) = 0 \<longrightarrow>
                newline @ chart_up @ '' Pass Rate: 0.0%'' \<in> set (transcript (final ops w)))"
  proof (intro allI impI)
    fix code
    assume ex: "outcome_of ops w = Exit code"
    have printed: "l \<in> set (transcript (final ops w))"
      if "l \<in> set (summary_lines (results (snd (body_run ops w))))" for l
      using summary_printed [OF acq ex, of l] that res by simp
    have rate: "newline @ chart_up @ '' Pass Rate: 0.0%'' \<in> set (transcript (final ops w))"
      if "total_r (results (snd (body_run ops w))) = 0"
      by (rule printed) (simp add: summary_lines_def pass_rate_none [OF that])
    show "''Total Tests: '' @ show_int (total_r (results (snd (body_run ops w))))
              \<in> set (transcript (final ops w))
          \<and> check_mark @ '' Passed: '' @ show_nat (length (passed (results (snd (body_run ops w)))))
              \<in> set (transcript (final ops w))
          \<and> cross_mark @ '' Failed: '' @ show_nat (length (failed (results (snd (body_run ops w)))))
              \<in> set (transcript (final ops w))
          \<and> newline @ chart_up @ '' Pass Rate: '' @ pass_rate (results (snd (body_run ops w))) @ ''%''
              \<in> set (transcript (final ops w))
          \<and> (total_r (results (snd (body_run ops w))) = 0 \<longrightarrow>
                newline @ chart_up @ '' Pass Rate: 0.0%'' \<in> set (transcript (final ops w)))"
      using rate by (auto intro!: printed simp: summary_lines_def)
  qed
next
  assume na: "fst (session ops w) = Inl e"
  from not_acquired_shape [OF na]
  show "outcome_of ops w = Uncaught e" and "results (final ops w) = no_results" by simp_all
  then show "exit_status (outcome_of ops w) = 1" by (simp add: exit_status_def)
  from header_means_exit [of ops w] na
  show "summary_header \<notin> set (transcript (final ops w))" by auto
  from not_acquired_shape [OF na] session_shape [of ops w]
  show "Call Close \<notin> set (trace (final ops w))"
    by (auto dest: body_event_not_close)
qed

subsection \<open>The sweep of step 8\<close>


subsection \<open>Two runs against the same responses\<close>


subsection \<open>The properties at sample applications\<close>

theorem exit_status_iff_no_failures_witness:
  "summary_header \<in> set (transcript (final one_route_open blank))
   \<and> outcome_of one_route_open blank = Exit 1
   \<and> exit_status (outcome_of one_route_open blank) = 1
   \<and> failed (results (final one_route_open blank)) = [''Middleware protects all dashboard routes'']"
proof -
  have ex: "outcome_of one_route_open blank = Exit 1"
    using close_returns_exit [OF sample_session(2) sample_close(2)]
    by (simp add: one_route_open_body)
  have h: "summary_header \<in> set (transcript (final one_route_open blank))"
    by (rule summary_printed [OF sample_session(2) ex header_in_summary])
  have f: "failed (results (final one_route_open blank))
             = [''Middleware protects all dashboard routes'']"
    using exit_shape [OF sample_session(2) ex] by (simp add: one_route_open_body)
  from exit_status_iff_no_failures [OF h] h f show ?thesis by (simp add: exit_status_def)
qed


theorem checks_logged_in_declared_order_witness:
  "fst (session one_route_open blank) = Inr () \<and> fst (body_run one_route_open blank) = Inr ()
   \<and> names (trace (final one_route_open blank)) = check_names
   \<and> failed (results (final one_route_open blank))
        = map fst (filter (\<lambda>c. \<not> snd c) (logged (trace (final one_route_open blank))))"
  using checks_logged_in_declared_order [of one_route_open blank]
    sample_session(2) one_route_open_body(1)
  by simp

theorem eleven_checks_recorded_witness:
  "fst (session well_guarded blank) = Inr () \<and> fst (body_run well_guarded blank) = Inr ()
   \<and> total_r (results (final well_guarded blank)) = 11
   \<and> outcome_of well_guarded blank = Exit 0
   \<and> ''Total Tests: 11'' \<in> set (transcript (final well_guarded blank))"
proof -
  have ex: "outcome_of well_guarded blank = Exit 0"
    using close_returns_exit [OF sample_session(1) sample_close(1)]
    by (simp add: well_guarded_body)
  from eleven_checks_recorded [OF sample_session(1) well_guarded_body(1)] ex
    sample_session(1) well_guarded_body(1)
  show ?thesis by simp
qed

theorem all_checks_pass_witness:
  "fst (session well_guarded blank) = Inr () \<and> fst (body_run well_guarded blank) = Inr ()
   \<and> failed (results (final well_guarded blank)) = []
   \<and> outcome_of well_guarded blank = Exit 0
   \<and> check_mark @ '' Passed: 11'' \<in> set (transcript (final well_guarded blank))
   \<and> newline @ chart_up @ '' Pass Rate: 100.0%'' \<in> set (transcript (final well_guarded blank))"
proof -
  have ex: "outcome_of well_guarded blank = Exit 0"
    using close_returns_exit [OF sample_session(1) sample_close(1)]
    by (simp add: well_guarded_body)
  have f: "failed (results (final well_guarded blank)) = []"
    using exit_shape [OF sample_session(1) ex] by (simp add: well_guarded_body)
  from all_checks_pass [OF sample_session(1) well_guarded_body(1) f ex]
    sample_session(1) well_guarded_body(1) f ex
  show ?thesis by simp
qed

text \<open>
  Against C5 as stated: in the first sample application every step passes, and the
  summary counts eleven passed checks; no line of the transcript says
  \<^verbatim>\<open>Passed: 10\<close>.
\<close>

theorem ten_passed_counterexample:
  "fst (body_run well_guarded blank) = Inr ()
   \<and> failed (results (final well_guarded blank)) = []
   \<and> outcome_of well_guarded blank = Exit 0
   \<and> check_mark @ '' Passed: 11'' \<in> set (transcript (final well_guarded blank))
   \<and> filter (is_in ''Passed: 10'') (transcript (final well_guarded blank)) = []"
proof -
  have ex: "outcome_of well_guarded blank = Exit 0"
    using close_returns_exit [OF sample_session(1) sample_close(1)]
    by (simp add: well_guarded_body)
  have f: "results (final well_guarded blank) = \<lparr>passed = check_names, failed = [], total_r = 11\<rparr>"
    using exit_shape [OF sample_session(1) ex] by (simp add: well_guarded_body)
  have len: "length (passed (results (final well_guarded blank))) = 11"
    by (simp add: f check_names_def)
  have "check_mark @ '' Passed: 11'' \<in> set (summary_lines (results (final well_guarded blank)))"
    using len by (simp add: summary_lines_def show_nat_11)
  then have p: "check_mark @ '' Passed: 11'' \<in> set (transcript (final well_guarded blank))"
    by (rule summary_printed [OF sample_session(1) ex])
  have n: "filter (is_in ''Passed: 10'') (transcript (final well_guarded blank)) = []"
    by (simp add: transcript_def run_defs sample_defs check_mark_def cross_mark_def round_pin_def
        newline_def test_tube_def bar_chart_def chart_up_def party_popper_def warning_sign_def
        rule60_def pass_prefix_def fail_prefix_def pass_rate_def format_1f_def show_int_def
        show_nat.simps digit_def is_in_rule60 is_in_rule60')
  from well_guarded_body(1) f ex p n show ?thesis by simp
qed

theorem step_error_aborts_steps_witness:
  "fst (session api_down blank) = Inr () \<and> 4 < length (check_steps api_down)
   \<and> fst (steps_before api_down blank 4) = Inr ()
   \<and> fst ((check_steps api_down ! 4) (snd (steps_before api_down blank 4)))
        = Inl ''APIRequestContext.get: Timeout 30000ms exceeded''
   \<and> body_run api_down blank = (check_steps api_down ! 4) (snd (steps_before api_down blank 4))
   \<and> results (final api_down blank) = \<lparr>passed = take 4 check_names, failed = [], total_r = 4\<rparr>"
proof -
  have len: "4 < length (check_steps api_down)" by (simp add: check_steps_def)
  from step_error_aborts_steps [OF sample_session(3) len api_down_body(1,2)]
  have "body_run api_down blank = (check_steps api_down ! 4) (snd (steps_before api_down blank 4))"
    and "results (final api_down blank)
           = results (snd ((check_steps api_down ! 4) (snd (steps_before api_down blank 4))))"
    by simp_all
  with sample_session(3) len api_down_body show ?thesis by simp
qed

text \<open>
  Against C1 as stated: the request of step 5 raises. No check is recorded as failed,
  the exception's message is on no details line, and step 6 does not run: its banner is
  not printed and its page is not visited.
\<close>

theorem step_error_recorded_counterexample:
  "fst ((check_steps api_down ! 4) (snd (steps_before api_down blank 4)))
        = Inl ''APIRequestContext.get: Timeout 30000ms exceeded''
   \<and> results (final api_down blank) = \<lparr>passed = take 4 check_names, failed = [], total_r = 4\<rparr>
   \<and> filter (\<lambda>ev. ev = Call (Goto ''http://localhost:3000/dashboard/team'')
              \<or> ev = Print (newline @ round_pin @ '' Test 6: Team Management Page'')
              \<or> ev = Print (''   Details: APIRequestContext.get: Timeout 30000ms exceeded''))
        (trace (final api_down blank)) = []"
proof -
  have r: "results (final api_down blank) = \<lparr>passed = take 4 check_names, failed = [], total_r = 4\<rparr>"
    using raise_shape(2) [OF sample_session(3) api_down_body(3)] by (simp add: api_down_body)
  have t: "filter (\<lambda>ev. ev = Call (Goto ''http://localhost:3000/dashboard/team'')
              \<or> ev = Print (newline @ round_pin @ '' Test 6: Team Management Page'')
              \<or> ev = Print (''   Details: APIRequestContext.get: Timeout 30000ms exceeded''))
        (trace (final api_down blank)) = []"
    by (simp add: run_defs sample_defs newline_def round_pin_def check_mark_def cross_mark_def
        pass_prefix_def fail_prefix_def test_tube_def bar_chart_def chart_up_def rule60_Cons
        party_popper_def warning_sign_def)
  from api_down_body(2) r t show ?thesis by simp
qed

theorem error_outside_steps_witness:
  "fst (session server_down blank) = Inr ()
   \<and> fst (body_run server_down blank) = Inl ''Page.goto: net::ERR_CONNECTION_REFUSED''
   \<and> results (final server_down blank) = no_results
   \<and> outcome_of server_down blank = Exit 0
   \<and> newline @ chart_up @ '' Pass Rate: 0.0%'' \<in> set (transcript (final server_down blank))
   \<and> fst (session no_browser blank) = Inl ''BrowserType.launch: Executable does not exist''
   \<and> outcome_of no_browser blank = Uncaught ''BrowserType.launch: Executable does not exist''
   \<and> Call Close \<notin> set (trace (final no_browser blank))"
proof -
  have ex: "outcome_of server_down blank = Exit 0"
    using close_returns_exit [OF sample_session(4) sample_close(4)]
    by (simp add: server_down_body no_results_def)
  have z: "total_r (results (snd (body_run server_down blank))) = 0"
    by (simp add: server_down_body no_results_def)
  from error_outside_steps
         [of server_down blank "''Page.goto: net::ERR_CONNECTION_REFUSED''"]
       error_outside_steps
         [of no_browser blank "''BrowserType.launch: Executable does not exist''"]
       sample_session(4) server_down_body ex z no_browser_run(1)
  show ?thesis by simp
qed

text \<open>
  Against C4 as stated. When the browser cannot be launched, the function is left by the
  exception: there is no summary and \<^verbatim>\<open>browser.close()\<close> is not called. When the
  first navigation is refused, the handler reports the exception and the run then ends
  with status 0, since no check was recorded as failed.
\<close>

theorem session_failure_counterexample:
  "fst (session no_browser blank) = Inl ''BrowserType.launch: Executable does not exist''
   \<and> trace (final no_browser blank) = [Call SyncPlaywright, Call Launch, Call Stop]
   \<and> transcript (final no_browser blank) = []
   \<and> fst (body_run server_down blank) = Inl ''Page.goto: net::ERR_CONNECTION_REFUSED''
   \<and> Traceback ''Page.goto: net::ERR_CONNECTION_REFUSED'' \<in> set (trace (final server_down blank))
   \<and> exit_status (outcome_of server_down blank) = 0"
proof -
  have ex: "outcome_of server_down blank = Exit 0"
    using close_returns_exit [OF sample_session(4) sample_close(4)]
    by (simp add: server_down_body no_results_def)
  have tb: "Traceback ''Page.goto: net::ERR_CONNECTION_REFUSED'' \<in> set (trace (final server_down blank))"
    using raise_shape(1) [OF sample_session(4) server_down_body(1)] by auto
  have tr: "transcript (final no_browser blank) = []"
    by (simp add: transcript_def no_browser_run)
  from no_browser_run tr server_down_body(1) tb ex show ?thesis by (simp add: exit_status_def)
qed




end
